theory Spec2Isabelle
  imports Main
begin

section \<open>The four-valued signal domain\<close>

text \<open>
  The TypeScript type \<^verbatim>\<open>LogicValue\<close> is the union
  \<^verbatim>\<open>boolean | HighImpedance | Unknown\<close>: the two booleans and two distinct constants.
\<close>

datatype LogicValue = Bool bool | Unknown | HighImpedance

text \<open>
  Modelled from the spec: the module \<^verbatim>\<open>utils\<close> with the type guards
  \<^verbatim>\<open>isUnknown\<close> and \<^verbatim>\<open>isHighImpedance\<close> is not among the sources. The spec lists
  Unknown and HighImpedance as two distinct values of the domain, and the callers test
  \<^verbatim>\<open>isUnknown(v) || isHighImpedance(v)\<close> for "indeterminate", so each guard
  recognises exactly its own constant.
\<close>

definition isUnknown :: "LogicValue \<Rightarrow> bool" where
  "isUnknown v = (v = Unknown)"

definition isHighImpedance :: "LogicValue \<Rightarrow> bool" where
  "isHighImpedance v = (v = HighImpedance)"

text \<open>
  Modelled from the spec: the helper \<^verbatim>\<open>inputValues\<close> of the component base class is
  not among the sources. It reads the visible values of the input nodes at the given
  indices, in order. A component's inputs are given here as the list of the visible
  values of its input nodes.
\<close>

definition inputValues :: "LogicValue list \<Rightarrow> nat list \<Rightarrow> LogicValue list" where
  "inputValues inputs inds = map (\<lambda>i. inputs ! i) inds"


section \<open>The arithmetic and logic unit (ALU.ts)\<close>

definition ALU_INPUT_A :: "nat list" where "ALU_INPUT_A = [0, 1, 2, 3]"
definition ALU_INPUT_B :: "nat list" where "ALU_INPUT_B = [4, 5, 6, 7]"
definition ALU_INPUT_Op :: "nat list" where "ALU_INPUT_Op = [8, 9]"
definition ALU_INPUT_Cin :: nat where "ALU_INPUT_Cin = 10"

datatype ALUOp = op_add | op_sub | op_and | op_or

text \<open>
  The getter \<^verbatim>\<open>op\<close> returns \<^verbatim>\<open>ALUOp | Unknown\<close>; \<open>None\<close> stands for the Unknown
  operation.
\<close>

definition ALU_op :: "LogicValue list \<Rightarrow> ALUOp option" where
  "ALU_op inputs =
     (let op1 = inputs ! (ALU_INPUT_Op ! 1);
          op0 = inputs ! (ALU_INPUT_Op ! 0)
      in case op1 of
           Bool False \<Rightarrow>
             (case op0 of
                Bool False \<Rightarrow> Some op_add
              | Bool True \<Rightarrow> Some op_sub
              | Unknown \<Rightarrow> None
              | HighImpedance \<Rightarrow> None)
         | Bool True \<Rightarrow>
             (case op0 of
                Bool False \<Rightarrow> Some op_or
              | Bool True \<Rightarrow> Some op_and
              | Unknown \<Rightarrow> None
              | HighImpedance \<Rightarrow> None)
         | Unknown \<Rightarrow> None
         | HighImpedance \<Rightarrow> None)"

fun allZeros :: "LogicValue list \<Rightarrow> LogicValue" where
  "allZeros [] = Bool True"
| "allZeros (v # vals) =
     (if isUnknown v \<or> isHighImpedance v then Unknown
      else if v = Bool True then Bool False
      else allZeros vals)"

subsection \<open>Addition\<close>

definition asNumber :: "LogicValue \<Rightarrow> nat" where
  "asNumber v = (if v = Bool True then 1 else 0)"

text \<open>
  \<^verbatim>\<open>sum3bits\<close> as written in the source: the second and the third summand of
  \<^verbatim>\<open>numUnset\<close> test \<^verbatim>\<open>isHighImpedance(a)\<close>, not \<^verbatim>\<open>isHighImpedance(b)\<close> and
  \<^verbatim>\<open>isHighImpedance(c)\<close>.
\<close>

definition sum3bits :: "LogicValue \<Rightarrow> LogicValue \<Rightarrow> LogicValue \<Rightarrow> LogicValue \<times> LogicValue" where
  "sum3bits a b c =
     (let numUnset = (if isUnknown a \<or> isHighImpedance a then 1 else 0)
                   + (if isUnknown b \<or> isHighImpedance a then 1 else 0)
                   + (if isUnknown c \<or> isHighImpedance a then 1 else (0::nat));
          sum = asNumber a + asNumber b + asNumber c
      in if numUnset = 0 then (Bool (sum mod 2 = 1), Bool (sum \<ge> 2))
         else if numUnset = 1 \<and> sum \<ge> 2 then (Unknown, Bool True)
         else (Unknown, Unknown))"

text \<open>
  The ripple loop \<^verbatim>\<open>for (let i = 0; i < a.length; i++)\<close> over the bit pairs
  \<^verbatim>\<open>(a[i], b[i])\<close>: it returns the sum bits \<^verbatim>\<open>y\<close> and the last carry \<^verbatim>\<open>prevCin\<close>.
\<close>

fun add_loop :: "LogicValue \<Rightarrow> (LogicValue \<times> LogicValue) list \<Rightarrow> LogicValue list \<times> LogicValue" where
  "add_loop prevCin [] = ([], prevCin)"
| "add_loop prevCin ((ai, bi) # rest) =
     (case sum3bits prevCin ai bi of
        (s, cout) \<Rightarrow> (case add_loop cout rest of (ys, v) \<Rightarrow> (s # ys, v)))"

text \<open>
  The rule of the specification, in its words: with the count \<open>U\<close> of indeterminate
  operands among the three and the sum \<open>S\<close> of the known ones.
\<close>

definition indeterminate :: "LogicValue \<Rightarrow> bool" where
  "indeterminate v = (v = Unknown \<or> v = HighImpedance)"

definition sum3bits_spec :: "LogicValue \<Rightarrow> LogicValue \<Rightarrow> LogicValue \<Rightarrow> LogicValue \<times> LogicValue" where
  "sum3bits_spec a b c =
     (let U = length (filter indeterminate [a, b, c]);
          S = asNumber a + asNumber b + asNumber c
      in if U = 0 then (Bool (S mod 2 = 1), Bool (S \<ge> 2))
         else if U = 1 \<and> S \<ge> 2 then (Unknown, Bool True)
         else (Unknown, Unknown))"

text \<open>The ripple loop with the rule of the specification at every bit.\<close>

fun add_loop_spec :: "LogicValue \<Rightarrow> (LogicValue \<times> LogicValue) list \<Rightarrow> LogicValue list \<times> LogicValue" where
  "add_loop_spec prevCin [] = ([], prevCin)"
| "add_loop_spec prevCin ((ai, bi) # rest) =
     (case sum3bits_spec prevCin ai bi of
        (s, cout) \<Rightarrow> (case add_loop_spec cout rest of (ys, v) \<Rightarrow> (s # ys, v)))"

subsection \<open>Subtraction\<close>

text \<open>
  JavaScript numbers as far as the subtraction needs them: an integer or \<^verbatim>\<open>NaN\<close>.
  Arithmetic with \<^verbatim>\<open>NaN\<close> gives \<^verbatim>\<open>NaN\<close>, every comparison with \<^verbatim>\<open>NaN\<close> is false.
\<close>

datatype jsnum = NaN | Num int

fun js_add :: "jsnum \<Rightarrow> jsnum \<Rightarrow> jsnum" where
  "js_add (Num x) (Num y) = Num (x + y)"
| "js_add _ _ = NaN"

fun js_sub :: "jsnum \<Rightarrow> jsnum \<Rightarrow> jsnum" where
  "js_sub (Num x) (Num y) = Num (x - y)"
| "js_sub _ _ = NaN"

fun js_mul :: "jsnum \<Rightarrow> jsnum \<Rightarrow> jsnum" where
  "js_mul (Num x) (Num y) = Num (x * y)"
| "js_mul _ _ = NaN"

fun js_less :: "jsnum \<Rightarrow> jsnum \<Rightarrow> bool" where
  "js_less (Num x) (Num y) = (x < y)"
| "js_less _ _ = False"

text \<open>\<^verbatim>\<open>x >>> 0\<close>: conversion to an unsigned 32-bit integer, \<^verbatim>\<open>NaN\<close> becoming 0.\<close>

fun js_ushr0 :: "jsnum \<Rightarrow> nat" where
  "js_ushr0 NaN = 0"
| "js_ushr0 (Num x) = nat (x mod 2 ^ 32)"

text \<open>\<^verbatim>\<open>n.toString(2)\<close>: the binary digits, most significant first, \<^verbatim>\<open>"0"\<close> for zero.\<close>

fun toString2 :: "nat \<Rightarrow> string" where
  "toString2 n =
     (if n < 2 then (if n = 1 then ''1'' else ''0'')
      else toString2 (n div 2) @ (if n mod 2 = 1 then ''1'' else ''0''))"

declare toString2.simps [simp del]

definition padStart :: "nat \<Rightarrow> char \<Rightarrow> string \<Rightarrow> string" where
  "padStart n c s = replicate (n - length s) c @ s"

text \<open>\<^verbatim>\<open>s[i]\<close> on a string: \<^verbatim>\<open>undefined\<close> (here \<open>None\<close>) beyond the end.\<close>

definition charAt :: "string \<Rightarrow> nat \<Rightarrow> char option" where
  "charAt s i = (if i < length s then Some (s ! i) else None)"

text \<open>
  Modelled from the spec: \<^verbatim>\<open>Number(v)\<close> on a \<^verbatim>\<open>LogicValue\<close> depends on the
  constants of the missing module \<^verbatim>\<open>utils\<close>. The spec gives the numeric
  interpretation: true is 1, false is 0, Unknown and HighImpedance have no numeric value,
  which for \<^verbatim>\<open>Number\<close> is \<^verbatim>\<open>NaN\<close>.
\<close>

fun Number :: "LogicValue \<Rightarrow> jsnum" where
  "Number (Bool True) = Num 1"
| "Number (Bool False) = Num 0"
| "Number Unknown = NaN"
| "Number HighImpedance = NaN"

text \<open>
  \<^verbatim>\<open>toInt\<close>: \<open>None\<close> is \<^verbatim>\<open>undefined\<close>. The loop carries the partial sum \<^verbatim>\<open>s\<close> and
  the weight \<^verbatim>\<open>col\<close>; only \<^verbatim>\<open>isUnknown\<close> is tested.
\<close>

fun toInt_loop :: "jsnum \<Rightarrow> jsnum \<Rightarrow> LogicValue list \<Rightarrow> jsnum option" where
  "toInt_loop s col [] = Some s"
| "toInt_loop s col (v # vs) =
     (if isUnknown v then None
      else toInt_loop (js_add s (js_mul (Number v) col)) (js_mul col (Num 2)) vs)"

definition toInt :: "LogicValue list \<Rightarrow> jsnum option" where
  "toInt vs = toInt_loop (Num 0) (Num 1) vs"

definition ALU_sub :: "LogicValue list \<Rightarrow> LogicValue list \<Rightarrow> LogicValue list \<times> LogicValue" where
  "ALU_sub a b =
     (case (toInt a, toInt b) of
        (Some aInt, Some bInt) \<Rightarrow>
          (let yInt = js_sub aInt bInt;
               yInt = (if js_less yInt (Num 0) then js_add yInt (Num 16) else yInt);
               yBinStr = padStart 4 (CHR ''0'') (toString2 (js_ushr0 yInt))
           in (map (\<lambda>i. Bool (charAt yBinStr (3 - i) = Some (CHR ''1''))) [0..<4],
               Bool (js_less aInt bInt)))
      | _ \<Rightarrow> ([Unknown, Unknown, Unknown, Unknown], Unknown))"

subsection \<open>Bitwise operations\<close>

definition and_bit :: "LogicValue \<Rightarrow> LogicValue \<Rightarrow> LogicValue" where
  "and_bit ai bi =
     (if ai = Bool False \<or> bi = Bool False then Bool False
      else if ai = Bool True \<and> bi = Bool True then Bool True
      else Unknown)"

definition or_bit :: "LogicValue \<Rightarrow> LogicValue \<Rightarrow> LogicValue" where
  "or_bit ai bi =
     (if ai = Bool True \<or> bi = Bool True then Bool True
      else if ai = Bool False \<and> bi = Bool False then Bool False
      else Unknown)"

subsection \<open>Recalculation\<close>

text \<open>The value of the ALU: the four result bits \<open>S\<close>, the flag \<open>V\<close> and the flag \<open>Z\<close>.\<close>

definition ALU_doRecalcValue :: "LogicValue list \<Rightarrow> LogicValue list \<times> LogicValue \<times> LogicValue" where
  "ALU_doRecalcValue inputs =
     (case ALU_op inputs of
        None \<Rightarrow> ([Unknown, Unknown, Unknown, Unknown], Unknown, Unknown)
      | Some opc \<Rightarrow>
          (let a = inputValues inputs ALU_INPUT_A;
               b = inputValues inputs ALU_INPUT_B;
               cin = inputs ! ALU_INPUT_Cin;
               (y, v) =
                 (case opc of
                    op_add \<Rightarrow> add_loop cin (zip a b)
                  | op_sub \<Rightarrow> ALU_sub a b
                  | op_and \<Rightarrow> (map (\<lambda>(ai, bi). and_bit ai bi) (zip a b), Bool False)
                  | op_or \<Rightarrow> (map (\<lambda>(ai, bi). or_bit ai bi) (zip a b), Bool False));
               z = allZeros y
           in (y, v, z)))"


section \<open>The 16 by 4 random-access memory (RAM16by4)\<close>

definition RAM_INPUT_Clock :: nat where "RAM_INPUT_Clock = 0"
definition RAM_INPUT_WriteEnable :: nat where "RAM_INPUT_WriteEnable = 1"
definition RAM_INPUT_Clear :: nat where "RAM_INPUT_Clear = 2"
definition RAM_INPUT_Data :: "nat list" where "RAM_INPUT_Data = [3, 4, 5, 6]"
definition RAM_INPUT_Address :: "nat list" where "RAM_INPUT_Address = [7, 8, 9, 10]"

definition WORD_WIDTH :: nat where "WORD_WIDTH = length RAM_INPUT_Data"
definition NUM_CELLS :: nat where "NUM_CELLS = 2 ^ length RAM_INPUT_Address"

record RAMValue =
  mem :: "LogicValue list list"
  out :: "LogicValue list"

datatype EdgeTrigger = rising | falling

text \<open>
  The fields of the component that recalculation uses: the committed value
  (\<^verbatim>\<open>this.value\<close>), \<^verbatim>\<open>_trigger\<close> and \<^verbatim>\<open>_lastClock\<close>.
\<close>

record RAM16by4 =
  ram_value :: RAMValue
  ram_trigger :: EdgeTrigger
  ram_lastClock :: LogicValue

text \<open>
  Modelled from the spec: \<^verbatim>\<open>FixedArrayFill\<close> of the missing module \<^verbatim>\<open>utils\<close>
  builds an array of the given length holding the given value at every index.
\<close>

definition FixedArrayFill :: "LogicValue \<Rightarrow> nat \<Rightarrow> LogicValue list" where
  "FixedArrayFill v n = replicate n v"

definition valueFilledWith :: "LogicValue \<Rightarrow> RAMValue" where
  "valueFilledWith v =
     \<lparr>mem = map (\<lambda>i. FixedArrayFill v WORD_WIDTH) [0..<NUM_CELLS],
      out = FixedArrayFill v WORD_WIDTH\<rparr>"

text \<open>
  Modelled from the spec: \<^verbatim>\<open>Flipflop.isClockTrigger\<close> is not among the sources. The
  spec: rising fires iff the previous clock is false and the current clock is true,
  falling fires iff the previous clock is true and the current clock is false; an
  Unknown or HighImpedance clock operand never fires.
\<close>

definition isClockTrigger :: "EdgeTrigger \<Rightarrow> LogicValue \<Rightarrow> LogicValue \<Rightarrow> bool" where
  "isClockTrigger trig prevClock clock =
     ((trig = rising \<and> prevClock = Bool False \<and> clock = Bool True)
      \<or> (trig = falling \<and> prevClock = Bool True \<and> clock = Bool False))"

text \<open>
  Modelled from the spec: \<^verbatim>\<open>displayValuesFromArray\<close> of the missing module
  \<^verbatim>\<open>drawutils\<close> returns a display string and the decoded number;
  \<^verbatim>\<open>currentAddress\<close> keeps only the number, so only the number is modelled. The caller
  passes \<^verbatim>\<open>false\<close> for "most significant first": the first bit is the least
  significant one. Any Unknown or HighImpedance bit makes the number Unknown (\<open>None\<close>).
\<close>

fun displayValuesFromArray :: "LogicValue list \<Rightarrow> nat option" where
  "displayValuesFromArray [] = Some 0"
| "displayValuesFromArray (v # vs) =
     (case v of
        Bool bv \<Rightarrow>
          (case displayValuesFromArray vs of
             None \<Rightarrow> None
           | Some n \<Rightarrow> Some ((if bv then 1 else 0) + 2 * n))
      | Unknown \<Rightarrow> None
      | HighImpedance \<Rightarrow> None)"

definition currentAddress :: "LogicValue list \<Rightarrow> nat option" where
  "currentAddress inputs = displayValuesFromArray (inputValues inputs RAM_INPUT_Address)"

text \<open>
  \<^verbatim>\<open>doRecalcValue\<close> returns the new value and assigns \<^verbatim>\<open>_lastClock\<close>: the model
  returns the value and the component with its updated field. The early return of the
  clear branch comes before the assignment.
\<close>

definition RAM_doRecalcValue :: "RAM16by4 \<Rightarrow> LogicValue list \<Rightarrow> RAMValue \<times> RAM16by4" where
  "RAM_doRecalcValue this inputs =
     (let clear = inputs ! RAM_INPUT_Clear
      in if clear = Bool True then (valueFilledWith (Bool False), this)
         else
           (let addr = currentAddress inputs;
                prevClock = ram_lastClock this;
                clock = inputs ! RAM_INPUT_Clock;
                this = this\<lparr>ram_lastClock := clock\<rparr>;
                oldState = ram_value this;
                we = inputs ! RAM_INPUT_WriteEnable
            in if we \<noteq> Bool True \<or> \<not> isClockTrigger (ram_trigger this) prevClock clock then
                 (\<lparr>mem = mem oldState,
                   out = (case addr of
                            None \<Rightarrow> [Unknown, Unknown, Unknown, Unknown]
                          | Some n \<Rightarrow> mem oldState ! n)\<rparr>, this)
               else
                 (case addr of
                    None \<Rightarrow> (valueFilledWith Unknown, this)
                  | Some n \<Rightarrow>
                      (let newData = inputValues inputs RAM_INPUT_Data;
                           newState = map (\<lambda>i. if i = n then newData else mem oldState ! i)
                                          [0..<NUM_CELLS]
                       in (\<lparr>mem = newState, out = newData\<rparr>, this)))))"

text \<open>
  Modelled from the spec: the recalculation of the component base class is not among the
  sources. It stores the value that \<^verbatim>\<open>doRecalcValue\<close> returns as the value of the
  component.
\<close>

definition RAM_recalc :: "RAM16by4 \<Rightarrow> LogicValue list \<Rightarrow> RAM16by4" where
  "RAM_recalc this inputs =
     (case RAM_doRecalcValue this inputs of (v, this') \<Rightarrow> this'\<lparr>ram_value := v\<rparr>)"

subsection \<open>Persistence\<close>

text \<open>
  \<^verbatim>\<open>toLogicValueRepr\<close> and \<^verbatim>\<open>toLogicValueFromChar\<close> belong to the missing module
  \<^verbatim>\<open>utils\<close>; \<^verbatim>\<open>contentRepr\<close> and \<^verbatim>\<open>savedStateFrom\<close> take them as parameters. The
  first gives the character that \<^verbatim>\<open>join("")\<close> makes of a value's representation.

  The second loop of \<^verbatim>\<open>contentRepr\<close> removes the last cell as long as it is
  \<^verbatim>\<open>"0000"\<close>.
\<close>

definition trimTrailingZeroCells :: "string list \<Rightarrow> string list" where
  "trimTrailingZeroCells cells = rev (dropWhile (\<lambda>cell. cell = ''0000'') (rev cells))"

definition contentRepr :: "(LogicValue \<Rightarrow> char) \<Rightarrow> RAMValue \<Rightarrow> string list option" where
  "contentRepr toLogicValueRepr v =
     (let cells = map (\<lambda>addr. rev (map toLogicValueRepr (mem v ! addr))) [0..<NUM_CELLS];
          cells = trimTrailingZeroCells cells
      in if length cells = 0 then None else Some cells)"

text \<open>
  The inner loop of \<^verbatim>\<open>savedStateFrom\<close>: \<^verbatim>\<open>row[j]\<close> is read from
  \<^verbatim>\<open>savedBits[len - j - 1]\<close> when that index is not negative, and stays false otherwise.
\<close>

definition savedRow :: "(char \<Rightarrow> LogicValue) \<Rightarrow> string \<Rightarrow> LogicValue list" where
  "savedRow toLogicValueFromChar savedBits =
     (let len = length savedBits
      in map (\<lambda>j. if int len - int j - 1 \<ge> 0
                   then toLogicValueFromChar (savedBits ! (len - j - 1))
                   else Bool False) [0..<WORD_WIDTH])"

definition savedStateFrom :: "(char \<Rightarrow> LogicValue) \<Rightarrow> string list option \<Rightarrow> RAMValue" where
  "savedStateFrom toLogicValueFromChar content =
     (case content of
        None \<Rightarrow> valueFilledWith (Bool False)
      | Some saved \<Rightarrow>
          (let m = map (\<lambda>i. if i < length saved
                             then savedRow toLogicValueFromChar (saved ! i)
                             else FixedArrayFill (Bool False) WORD_WIDTH) [0..<NUM_CELLS]
           in \<lparr>mem = m, out = m ! 0\<rparr>))"

text \<open>
  Modelled from the spec: an instance of the two missing functions, used in examples
  only. A word is serialized as a 4-character bit string, so a value is one character,
  \<^verbatim>\<open>0\<close> and \<^verbatim>\<open>1\<close> for the booleans; a character that is none of the four reads
  as Unknown.
\<close>

fun toLogicValueRepr :: "LogicValue \<Rightarrow> char" where
  "toLogicValueRepr (Bool True) = CHR ''1''"
| "toLogicValueRepr (Bool False) = CHR ''0''"
| "toLogicValueRepr Unknown = CHR ''?''"
| "toLogicValueRepr HighImpedance = CHR ''Z''"

definition toLogicValueFromChar :: "char \<Rightarrow> LogicValue" where
  "toLogicValueFromChar c =
     (if c = CHR ''1'' then Bool True
      else if c = CHR ''0'' then Bool False
      else if c = CHR ''?'' then Unknown
      else if c = CHR ''Z'' then HighImpedance
      else Unknown)"


section \<open>Nodes (Node.ts)\<close>

text \<open>
  The fields of \<^verbatim>\<open>NodeBase\<close> that carry the signal: \<^verbatim>\<open>id\<close>, \<^verbatim>\<open>_isAlive\<close>,
  \<^verbatim>\<open>_value\<close> (the computed value) and \<^verbatim>\<open>_forceValue\<close> (\<open>None\<close> is
  \<^verbatim>\<open>undefined\<close>). Position and drawing are left out.
\<close>

record NodeBase =
  node_id :: nat
  node_isAlive :: bool
  node_value :: LogicValue
  node_forceValue :: "LogicValue option"

text \<open>The getter \<^verbatim>\<open>value\<close>: the visible value.\<close>

definition get_value :: "'a NodeBase_scheme \<Rightarrow> LogicValue" where
  "get_value this =
     (case node_forceValue this of Some forced \<Rightarrow> forced | None \<Rightarrow> node_value this)"

text \<open>
  \<^verbatim>\<open>propagateNewValue\<close> is abstract in \<^verbatim>\<open>NodeBase\<close>. The two functions below return
  the arguments of the calls of \<^verbatim>\<open>propagateNewValue\<close> they make, in order: no call or
  one call.
\<close>

definition propagateNewValueIfNecessary :: "'a NodeBase_scheme \<Rightarrow> LogicValue \<Rightarrow> LogicValue list" where
  "propagateNewValueIfNecessary this oldVisibleValue =
     (let newVisibleValue = get_value this
      in if newVisibleValue \<noteq> oldVisibleValue then [newVisibleValue] else [])"

text \<open>The setter \<^verbatim>\<open>value\<close>.\<close>

definition set_value :: "'a NodeBase_scheme \<Rightarrow> LogicValue \<Rightarrow> 'a NodeBase_scheme \<times> LogicValue list" where
  "set_value this val =
     (let oldVisibleValue = get_value this
      in if val \<noteq> node_value this then
           (let this = this\<lparr>node_value := val\<rparr>
            in (this, propagateNewValueIfNecessary this oldVisibleValue))
         else (this, []))"

subsection \<open>Output nodes\<close>

text \<open>
  \<^verbatim>\<open>NodeOut\<close> adds the outgoing wires, given by their identities. A push is one call
  \<^verbatim>\<open>wire.propageNewValue(newValue, now)\<close>.
\<close>

record NodeOut = NodeBase +
  outgoingWires :: "nat list"

record 't WirePush =
  push_wire :: nat
  push_value :: LogicValue
  push_now :: 't

definition NodeOut_propagateNewValue :: "'t \<Rightarrow> NodeOut \<Rightarrow> LogicValue \<Rightarrow> 't WirePush list" where
  "NodeOut_propagateNewValue now this newValue =
     map (\<lambda>wire. \<lparr>push_wire = wire, push_value = newValue, push_now = now\<rparr>)
         (outgoingWires this)"

text \<open>
  The setter \<^verbatim>\<open>forceValue\<close> of \<^verbatim>\<open>NodeOut\<close>; as above it returns the arguments of its
  calls of \<^verbatim>\<open>propagateNewValue\<close>.
\<close>

definition set_forceValue :: "NodeOut \<Rightarrow> LogicValue option \<Rightarrow> NodeOut \<times> LogicValue list" where
  "set_forceValue this newForceValue =
     (let oldVisibleValue = get_value this;
          this = this\<lparr>node_forceValue := newForceValue\<rparr>
      in (this, propagateNewValueIfNecessary this oldVisibleValue))"

text \<open>
  The two operations on an output node with the dispatch to
  \<^verbatim>\<open>NodeOut.propagateNewValue\<close> resolved: the node afterwards, the calls of
  \<^verbatim>\<open>propagateNewValue\<close> and the pushes to the wires.
\<close>

definition NodeOut_set_value :: "'t \<Rightarrow> NodeOut \<Rightarrow> LogicValue \<Rightarrow> NodeOut \<times> LogicValue list \<times> 't WirePush list" where
  "NodeOut_set_value now this val =
     (case set_value this val of
        (this', calls) \<Rightarrow> (this', calls, concat (map (NodeOut_propagateNewValue now this') calls)))"

definition NodeOut_set_forceValue :: "'t \<Rightarrow> NodeOut \<Rightarrow> LogicValue option \<Rightarrow> NodeOut \<times> LogicValue list \<times> 't WirePush list" where
  "NodeOut_set_forceValue now this newForceValue =
     (case set_forceValue this newForceValue of
        (this', calls) \<Rightarrow> (this', calls, concat (map (NodeOut_propagateNewValue now this') calls)))"

subsection \<open>Input nodes\<close>

text \<open>A wire as an input node sees it: its start node, whose visible value is read.\<close>

record Wire =
  startNode :: NodeOut

record NodeIn = NodeBase +
  incomingWire :: "Wire option"
  prefersSpike :: bool

text \<open>
  The representation of an input node holds its identifier only, so the constructor
  finds no \<^verbatim>\<open>force\<close> key and leaves \<^verbatim>\<open>_forceValue\<close> undefined.
\<close>

record InputNodeRepr =
  repr_id :: nat

definition NodeIn_new :: "InputNodeRepr \<Rightarrow> NodeIn" where
  "NodeIn_new nodeSpec =
     \<lparr>node_id = repr_id nodeSpec, node_isAlive = True, node_value = Bool False,
      node_forceValue = None, incomingWire = None, prefersSpike = False\<rparr>"

text \<open>\<^verbatim>\<open>NodeIn.propagateNewValue\<close> calls \<^verbatim>\<open>parent.setNeedsRecalc()\<close>.\<close>

datatype ParentCall = setNeedsRecalc

definition NodeIn_propagateNewValue :: "LogicValue \<Rightarrow> ParentCall list" where
  "NodeIn_propagateNewValue newValue = [setNeedsRecalc]"

definition NodeIn_set_value :: "NodeIn \<Rightarrow> LogicValue \<Rightarrow> NodeIn \<times> ParentCall list" where
  "NodeIn_set_value this val =
     (case set_value this val of
        (this', calls) \<Rightarrow> (this', concat (map NodeIn_propagateNewValue calls)))"

text \<open>The setter \<^verbatim>\<open>incomingWire\<close>.\<close>

definition set_incomingWire :: "NodeIn \<Rightarrow> Wire option \<Rightarrow> NodeIn \<times> ParentCall list" where
  "set_incomingWire this wire =
     (let this = this\<lparr>incomingWire := wire\<rparr>
      in case wire of
           None \<Rightarrow> NodeIn_set_value this (Bool False)
         | Some w \<Rightarrow> NodeIn_set_value this (get_value (startNode w)))"

text \<open>
  Modelled from the spec: the class \<^verbatim>\<open>Wire\<close>, which assigns the value of its end
  node, is not among the sources. The spec makes the scheduled update of a destroyed wire
  a silent no-op, so a delivery happens only while a wire is attached.

  The input nodes a run can produce: a new node, then any sequence of attaching or
  detaching a wire and of value updates delivered by the attached wire.
\<close>

inductive NodeIn_reachable :: "NodeIn \<Rightarrow> bool" where
  created: "NodeIn_reachable (NodeIn_new nodeSpec)"
| rewired: "NodeIn_reachable this \<Longrightarrow> NodeIn_reachable (fst (set_incomingWire this wire))"
| delivered: "NodeIn_reachable this \<Longrightarrow> incomingWire this \<noteq> None
              \<Longrightarrow> NodeIn_reachable (fst (NodeIn_set_value this val))"


section \<open>The representation of a component's nodes (Component.ts)\<close>

text \<open>
  The JSON values that \<^verbatim>\<open>buildNodesRepr\<close> produces: numbers, arrays and objects with
  their fields in order; \<open>JTriState\<close> wraps what \<^verbatim>\<open>toTriStateRepr\<close> of the missing
  module \<^verbatim>\<open>utils\<close> makes of a forced value, which is taken as a parameter.
\<close>

datatype 'r json = JNumber nat | JTriState 'r | JArray "'r json list" | JObject "(string \<times> 'r json) list"

definition inNodeReprs :: "'a NodeBase_scheme list \<Rightarrow> 'r json" where
  "inNodeReprs nodes =
     (let reprOne = (\<lambda>node. JNumber (node_id node))
      in if length nodes = 1 then reprOne (nodes ! 0) else JArray (map reprOne nodes))"

definition outNodeReprs :: "(LogicValue \<Rightarrow> 'r) \<Rightarrow> NodeOut list \<Rightarrow> 'r json" where
  "outNodeReprs toTriStateRepr nodes =
     (let reprOne = (\<lambda>node.
            case node_forceValue node of
              None \<Rightarrow> JNumber (node_id node)
            | Some forced \<Rightarrow>
                JObject [(''id'', JNumber (node_id node)),
                         (''force'', JTriState (toTriStateRepr forced))])
      in if length nodes = 1 then reprOne (nodes ! 0) else JArray (map reprOne nodes))"

definition buildNodesRepr :: "(LogicValue \<Rightarrow> 'r) \<Rightarrow> 'a NodeBase_scheme list \<Rightarrow> NodeOut list \<Rightarrow> 'r json" where
  "buildNodesRepr toTriStateRepr inputs outputs =
     (let numInputs = length inputs;
          numOutputs = length outputs
      in if numInputs \<noteq> 0 then
           (let inRepr = inNodeReprs inputs
            in if numOutputs \<noteq> 0 then
                 (let outRepr = outNodeReprs toTriStateRepr outputs
                  in JObject [(''in'', inRepr), (''out'', outRepr)])
               else JObject [(''id'', inRepr)])
         else if numOutputs \<noteq> 0 then
           (let outRepr = outNodeReprs toTriStateRepr outputs
            in JObject [(''id'', outRepr)])
         else JObject [])"

text \<open>
  The scheme in the words of the specification: an array of one element collapses to
  the element; an input is its identifier; an output is its identifier, or an object
  with the identifier and the force when a forced value is defined.
\<close>

definition collapse :: "'r json list \<Rightarrow> 'r json" where
  "collapse entries = (case entries of [entry] \<Rightarrow> entry | _ \<Rightarrow> JArray entries)"

definition input_entry :: "'a NodeBase_scheme \<Rightarrow> 'r json" where
  "input_entry node = JNumber (node_id node)"

definition output_entry :: "(LogicValue \<Rightarrow> 'r) \<Rightarrow> NodeOut \<Rightarrow> 'r json" where
  "output_entry toTriStateRepr node =
     (case node_forceValue node of
        Some forced \<Rightarrow>
          JObject [(''id'', JNumber (node_id node)), (''force'', JTriState (toTriStateRepr forced))]
      | None \<Rightarrow> JNumber (node_id node))"

definition has_field :: "string \<Rightarrow> 'r json \<Rightarrow> bool" where
  "has_field name j = (case j of JObject flds \<Rightarrow> name \<in> fst ` set flds | _ \<Rightarrow> False)"

definition NodeIDsRepr_spec :: "(LogicValue \<Rightarrow> 'r) \<Rightarrow> 'a NodeBase_scheme list \<Rightarrow> NodeOut list \<Rightarrow> 'r json" where
  "NodeIDsRepr_spec toTriStateRepr inputs outputs =
     (if inputs = [] \<and> outputs = [] then JObject []
      else if outputs = [] then JObject [(''id'', collapse (map input_entry inputs))]
      else if inputs = [] then JObject [(''id'', collapse (map (output_entry toTriStateRepr) outputs))]
      else JObject [(''in'', collapse (map input_entry inputs)),
                    (''out'', collapse (map (output_entry toTriStateRepr) outputs))])"

section \<open>Notions used in the statements\<close>

text \<open>The four bits of a number below 16, least significant first, as the ALU reads them.\<close>

definition bits4 :: "nat \<Rightarrow> LogicValue list" where
  "bits4 n = map (\<lambda>i. Bool (odd (n div 2 ^ i))) [0..<4]"

text \<open>The \<open>n\<close> low bits of a number, least significant first.\<close>

fun bitsN :: "nat \<Rightarrow> nat \<Rightarrow> LogicValue list" where
  "bitsN 0 k = []"
| "bitsN (Suc n) k = Bool (odd k) # bitsN n (k div 2)"

text \<open>
  The write condition of the RAM: write-enable is true and the transition from the
  remembered clock to the present clock satisfies the configured edge trigger.
\<close>

definition write_triggered :: "RAM16by4 \<Rightarrow> LogicValue list \<Rightarrow> bool" where
  "write_triggered this inputs =
     (inputs ! RAM_INPUT_WriteEnable = Bool True
      \<and> isClockTrigger (ram_trigger this) (ram_lastClock this) (inputs ! RAM_INPUT_Clock))"

text \<open>The cell string of a word, and what loading makes of the saved cell at an index.\<close>

definition cell_of :: "(LogicValue \<Rightarrow> char) \<Rightarrow> LogicValue list \<Rightarrow> string" where
  "cell_of repr w = rev (map repr w)"

definition loaded_row :: "(char \<Rightarrow> LogicValue) \<Rightarrow> string list \<Rightarrow> nat \<Rightarrow> LogicValue list" where
  "loaded_row fromChar saved i =
     (if i < length saved then savedRow fromChar (saved ! i)
      else FixedArrayFill (Bool False) WORD_WIDTH)"


section \<open>Properties of the ALU\<close>

lemmas ALU_consts = ALU_INPUT_A_def ALU_INPUT_B_def ALU_INPUT_Op_def ALU_INPUT_Cin_def

lemma length4E:
  assumes "length w = 4"
  obtains a b c d where "w = [a, b, c, d]"
  using assms by (auto simp: length_Suc_conv numeral_eq_Suc)

subsection \<open>Zero flag\<close>

lemma not_True_known:
  "a \<noteq> Bool True \<Longrightarrow> a \<noteq> Unknown \<Longrightarrow> a \<noteq> HighImpedance \<Longrightarrow> a = Bool False"
  by (cases a) auto

lemma allZeros_first_decisive:
  "allZeros y =
     (case dropWhile (\<lambda>b. b = Bool False) y of
        [] \<Rightarrow> Bool True
      | b # _ \<Rightarrow> if b = Bool True then Bool False else Unknown)"
proof (induction y)
  case Nil
  show ?case by simp
next
  case (Cons b y)
  show ?case
  proof (cases b)
    case (Bool p)
    with Cons show ?thesis by (cases p) (simp_all add: isUnknown_def isHighImpedance_def)
  qed (simp_all add: isUnknown_def isHighImpedance_def)
qed

lemma allZeros_True_iff: "(allZeros y = Bool True) = (\<forall>b\<in>set y. b = Bool False)"
  by (induction y) (auto simp: isUnknown_def isHighImpedance_def dest: not_True_known)

lemma allZeros_False_if:
  "\<forall>b\<in>set y. \<not> indeterminate b \<Longrightarrow> \<exists>b\<in>set y. b = Bool True \<Longrightarrow> allZeros y = Bool False"
  by (induction y) (auto simp: isUnknown_def isHighImpedance_def indeterminate_def)

lemma allZeros_Unknown_if:
  "\<forall>b\<in>set y. b \<noteq> Bool True \<Longrightarrow> \<exists>b\<in>set y. indeterminate b \<Longrightarrow> allZeros y = Unknown"
  by (induction y) (auto simp: isUnknown_def isHighImpedance_def indeterminate_def)

lemma length_add_loop: "add_loop c ps = (ys, v) \<Longrightarrow> length ys = length ps"
  by (induction ps arbitrary: c ys v) (auto split: prod.splits)

lemma length_ALU_sub: "ALU_sub a b = (ys, v) \<Longrightarrow> length ys = 4"
  by (auto simp: ALU_sub_def Let_def split: option.splits)

lemma ALU_result:
  assumes "ALU_op inputs = Some opc" and "ALU_doRecalcValue inputs = (y, v, z)"
  shows "length y = 4 \<and> z = allZeros y"
proof -
  let ?a = "inputValues inputs ALU_INPUT_A" and ?b = "inputValues inputs ALU_INPUT_B"
  have len: "length (zip ?a ?b) = 4" by (simp add: inputValues_def ALU_consts)
  show ?thesis
  proof (cases opc)
    case op_add
    obtain ys c where al: "add_loop (inputs ! ALU_INPUT_Cin) (zip ?a ?b) = (ys, c)"
      by (cases "add_loop (inputs ! ALU_INPUT_Cin) (zip ?a ?b)")
    have "length ys = 4" using length_add_loop [OF al] len by simp
    with assms op_add al show ?thesis by (auto simp add: ALU_doRecalcValue_def)
  next
    case op_sub
    obtain ys c where al: "ALU_sub ?a ?b = (ys, c)" by (cases "ALU_sub ?a ?b")
    have "length ys = 4" using length_ALU_sub [OF al] by simp
    with assms op_sub al show ?thesis by (auto simp add: ALU_doRecalcValue_def)
  next
    case op_and
    with assms len show ?thesis by (auto simp add: ALU_doRecalcValue_def Let_def)
  next
    case op_or
    with assms len show ?thesis by (auto simp add: ALU_doRecalcValue_def Let_def)
  qed
qed

text \<open>
  Claim C8 (the code departs from it). Z must be Unknown whenever a result bit is Unknown
  or HighImpedance and false when some result bit is true and none is indeterminate,
  whatever the positions of the bits. \<^verbatim>\<open>allZeros\<close> returns at the first bit that is
  not false, so the flag depends on the order of the bits: with the operation "or" and
  \<open>B\<close> all false, \<open>A = [true, Unknown, false, false]\<close> gives a result with an Unknown
  bit and Z false, while \<open>A = [Unknown, true, false, false]\<close> gives a result with the
  same bits in another order and Z Unknown.
\<close>

theorem ALU_zero_flag_order_dependent:
  "ALU_doRecalcValue
      [Bool True, Unknown, Bool False, Bool False,
       Bool False, Bool False, Bool False, Bool False,
       Bool False, Bool True, Bool False]
     = ([Bool True, Unknown, Bool False, Bool False], Bool False, Bool False)
   \<and> ALU_doRecalcValue
      [Unknown, Bool True, Bool False, Bool False,
       Bool False, Bool False, Bool False, Bool False,
       Bool False, Bool True, Bool False]
     = ([Unknown, Bool True, Bool False, Bool False], Bool False, Unknown)
   \<and> allZeros [Bool True, Unknown, Bool False, Bool False] = Bool False
   \<and> allZeros [Unknown, Bool True, Bool False, Bool False] = Unknown"
  by (simp add: ALU_doRecalcValue_def ALU_op_def ALU_consts inputValues_def or_bit_def
      isUnknown_def isHighImpedance_def)

subsection \<open>Addition\<close>

lemma sum3bits_without_HighImpedance:
  "a \<noteq> HighImpedance \<Longrightarrow> b \<noteq> HighImpedance \<Longrightarrow> c \<noteq> HighImpedance \<Longrightarrow>
   sum3bits a b c = sum3bits_spec a b c"
  by (cases a; cases b; cases c)
     (auto simp: sum3bits_def sum3bits_spec_def isUnknown_def isHighImpedance_def
        indeterminate_def asNumber_def)

lemma sum3bits_carry_not_HighImpedance: "snd (sum3bits a b c) \<noteq> HighImpedance"
  by (simp add: sum3bits_def Let_def)

text \<open>
  Without a HighImpedance value among the addends and the carry-in, the whole ripple
  addition follows the rule of the specification.
\<close>

lemma add_loop_without_HighImpedance:
  "c \<noteq> HighImpedance \<Longrightarrow> \<forall>(ai, bi)\<in>set ps. ai \<noteq> HighImpedance \<and> bi \<noteq> HighImpedance \<Longrightarrow>
   add_loop c ps = add_loop_spec c ps"
proof (induction ps arbitrary: c)
  case Nil
  show ?case by simp
next
  case (Cons p ps)
  obtain ai bi where p: "p = (ai, bi)" by (cases p)
  from Cons.prems p have ab: "ai \<noteq> HighImpedance" "bi \<noteq> HighImpedance"
    and rest: "\<forall>(ai, bi)\<in>set ps. ai \<noteq> HighImpedance \<and> bi \<noteq> HighImpedance"
    by simp_all
  have eq: "sum3bits c ai bi = sum3bits_spec c ai bi"
    using Cons.prems(1) ab by (rule sum3bits_without_HighImpedance)
  obtain s cout where sc: "sum3bits c ai bi = (s, cout)" by (cases "sum3bits c ai bi")
  have "cout \<noteq> HighImpedance"
    using sum3bits_carry_not_HighImpedance [of c ai bi] sc by simp
  from this rest have ih: "add_loop cout ps = add_loop_spec cout ps" by (rule Cons.IH)
  from eq sc have sc': "sum3bits_spec c ai bi = (s, cout)" by simp
  show ?case by (simp add: p sc sc' ih)
qed

text \<open>
  Claim C1 (the code departs from it). The specification's rule for a bit counts each of
  the three operands (carry-in, a bit, b bit) as indeterminate when it is Unknown or
  HighImpedance. The code tests HighImpedance on its first operand only, three times:
  with carry-in false, \<open>a\<^sub>0\<close> HighImpedance and \<open>b\<^sub>0\<close> false it counts no indeterminate
  operand and returns sum false, carry false where the rule gives Unknown, Unknown; with
  carry-in HighImpedance and both bits true it counts three and returns carry Unknown
  where the rule gives carry true. The whole ALU then adds
  \<open>A = [HighImpedance, false, false, false]\<close> and \<open>B = 0\<close> to S = 0000, V = false, Z = true.
\<close>

theorem sum3bits_HighImpedance_operand:
  "sum3bits (Bool False) HighImpedance (Bool False) = (Bool False, Bool False)
   \<and> sum3bits_spec (Bool False) HighImpedance (Bool False) = (Unknown, Unknown)
   \<and> sum3bits HighImpedance (Bool True) (Bool True) = (Unknown, Unknown)
   \<and> sum3bits_spec HighImpedance (Bool True) (Bool True) = (Unknown, Bool True)
   \<and> ALU_doRecalcValue
       [HighImpedance, Bool False, Bool False, Bool False,
        Bool False, Bool False, Bool False, Bool False,
        Bool False, Bool False, Bool False]
     = ([Bool False, Bool False, Bool False, Bool False], Bool False, Bool True)"
  by (simp add: ALU_doRecalcValue_def ALU_op_def ALU_consts inputValues_def sum3bits_def
      sum3bits_spec_def indeterminate_def isUnknown_def isHighImpedance_def asNumber_def)

subsection \<open>Subtraction\<close>

lemma toInt_loop_Unknown: "Unknown \<in> set vs \<Longrightarrow> toInt_loop s col vs = None"
  by (induction vs arbitrary: s col) (auto simp: isUnknown_def)

lemma ALU_sub_Unknown:
  "Unknown \<in> set a \<or> Unknown \<in> set b \<Longrightarrow>
   ALU_sub a b = ([Unknown, Unknown, Unknown, Unknown], Unknown)"
  by (auto simp: ALU_sub_def toInt_def toInt_loop_Unknown split: option.splits)

lemma toInt_bits4_all: "\<forall>x\<in>set [0..<16]. toInt (bits4 x) = Some (Num (int x))"
  by code_simp

lemma toInt_bits4: "x < 16 \<Longrightarrow> toInt (bits4 x) = Some (Num (int x))"
  using toInt_bits4_all by simp

lemma yBinStr_bits4_all:
  "\<forall>n\<in>set [0..<16].
     map (\<lambda>i. Bool (charAt (padStart 4 (CHR ''0'') (toString2 n)) (3 - i) = Some (CHR ''1''))) [0..<4]
       = bits4 n"
  by code_simp

lemma yBinStr_bits4:
  "n < 16 \<Longrightarrow>
     map (\<lambda>i. Bool (charAt (padStart 4 (CHR ''0'') (toString2 n)) (3 - i) = Some (CHR ''1''))) [0..<4]
       = bits4 n"
  using yBinStr_bits4_all by simp

lemma wrap_value:
  assumes "x < 16" and "y < 16"
  shows "js_ushr0 (let yInt = js_sub (Num (int x)) (Num (int y))
                   in if js_less yInt (Num 0) then js_add yInt (Num 16) else yInt)
         = (16 + x - y) mod 16"
proof (cases "x < y")
  case True
  with assms have "nat ((int x - int y + 16) mod 2 ^ 32) = 16 + x - y" by (simp add: nat_eq_iff)
  moreover from True assms have "(16 + x - y) mod 16 = 16 + x - y" by simp
  ultimately show ?thesis using True by (simp add: Let_def)
next
  case False
  with assms have "nat ((int x - int y) mod 2 ^ 32) = x - y" by (simp add: nat_eq_iff)
  moreover have "(16 + x - y) mod 16 = x - y"
  proof -
    from False have "16 + x - y = x - y + 16" by linarith
    then have "(16 + x - y) mod 16 = (x - y) mod 16" by (simp only: mod_add_self2)
    moreover from assms have "x - y < 16" by linarith
    ultimately show ?thesis by (simp only: mod_less)
  qed
  ultimately show ?thesis using False by (simp add: Let_def)
qed

text \<open>
  With both operands fully known the subtraction is as the specification says: the
  result is \<open>(x - y) mod 16\<close> and the borrow flag is \<open>y > x\<close>.
\<close>

lemma ALU_sub_known:
  assumes "x < 16" and "y < 16"
  shows "ALU_sub (bits4 x) (bits4 y) = (bits4 ((16 + x - y) mod 16), Bool (x < y))"
proof -
  have lt: "(16 + x - y) mod 16 < 16" by simp
  have "ALU_sub (bits4 x) (bits4 y)
      = (map (\<lambda>i. Bool (charAt (padStart 4 (CHR ''0'') (toString2 (js_ushr0
             (let yInt = js_sub (Num (int x)) (Num (int y))
              in if js_less yInt (Num 0) then js_add yInt (Num 16) else yInt)))) (3 - i)
           = Some (CHR ''1''))) [0..<4], Bool (x < y))"
    unfolding ALU_sub_def toInt_bits4 [OF assms(1)] toInt_bits4 [OF assms(2)]
    by (simp only: Let_def prod.case option.case js_less.simps of_nat_less_iff)
  also have "\<dots> = (bits4 ((16 + x - y) mod 16), Bool (x < y))"
    unfolding wrap_value [OF assms] yBinStr_bits4 [OF lt] ..
  finally show ?thesis .
qed

text \<open>
  Claim C3 (the code departs from it). An operand with a HighImpedance bit must make all
  outputs Unknown. \<^verbatim>\<open>toInt\<close> tests \<^verbatim>\<open>isUnknown\<close> only, so a HighImpedance bit
  enters the sum as \<^verbatim>\<open>NaN\<close>; the difference is \<^verbatim>\<open>NaN\<close>, which \<^verbatim>\<open>>>> 0\<close> turns
  into 0, and both comparisons with \<^verbatim>\<open>NaN\<close> are false. With the operation "sub",
  \<open>A = [HighImpedance, false, false, false]\<close> and \<open>B = 0\<close> the ALU returns S = 0000,
  V = false, Z = true.
\<close>

theorem ALU_sub_HighImpedance_operand:
  "toInt [HighImpedance, Bool False, Bool False, Bool False] = Some NaN
   \<and> ALU_doRecalcValue
       [HighImpedance, Bool False, Bool False, Bool False,
        Bool False, Bool False, Bool False, Bool False,
        Bool True, Bool False, Bool False]
     = ([Bool False, Bool False, Bool False, Bool False], Bool False, Bool True)"
  by code_simp


subsection \<open>Opcode and selected operation\<close>

lemma full_adder:
  "sum3bits (Bool c) (Bool a) (Bool b)
     = (Bool (odd (of_bool a + of_bool b + (of_bool c :: nat))),
        Bool (2 \<le> of_bool a + of_bool b + (of_bool c :: nat)))"
  by (cases a; cases b; cases c)
     (simp_all add: sum3bits_def isUnknown_def isHighImpedance_def asNumber_def)

text \<open>On known operands the ripple loop adds: induction on the number of bits.\<close>

lemma add_bitsN:
  "x < 2 ^ n \<Longrightarrow> y < 2 ^ n \<Longrightarrow>
   add_loop (Bool c) (zip (bitsN n x) (bitsN n y))
     = (bitsN n (x + y + of_bool c), Bool (2 ^ n \<le> x + y + of_bool c))"
proof (induction n arbitrary: x y c)
  case 0
  then show ?case by simp
next
  case (Suc n)
  let ?c' = "2 \<le> of_bool (odd x) + of_bool (odd y) + (of_bool c :: nat)"
  from Suc.prems have x: "x div 2 < 2 ^ n" and y: "y div 2 < 2 ^ n" by auto
  have half: "(x + y + of_bool c) div 2 = x div 2 + y div 2 + of_bool ?c'"
    by (cases c; cases "odd x"; cases "odd y") (auto elim!: oddE evenE)
  have par: "odd (of_bool (odd x) + of_bool (odd y) + (of_bool c :: nat)) = odd (x + y + of_bool c)"
    by simp
  have carry: "(2 ^ n \<le> x div 2 + y div 2 + of_bool ?c') = (2 ^ Suc n \<le> x + y + of_bool c)"
  proof -
    have "(2 ^ n \<le> (x + y + of_bool c) div 2) = (2 ^ n * 2 \<le> x + y + of_bool c)"
      by (rule less_eq_div_iff_mult_less_eq) simp
    then show ?thesis unfolding half by (simp only: power_Suc mult.commute)
  qed
  have "add_loop (Bool c) (zip (bitsN (Suc n) x) (bitsN (Suc n) y))
      = (Bool (odd (of_bool (odd x) + of_bool (odd y) + (of_bool c :: nat)))
           # bitsN n (x div 2 + y div 2 + of_bool ?c'),
         Bool (2 ^ n \<le> x div 2 + y div 2 + of_bool ?c'))"
    by (simp only: bitsN.simps zip_Cons_Cons add_loop.simps full_adder prod.case
        Suc.IH [OF x y])
  also have "\<dots> = (bitsN (Suc n) (x + y + of_bool c), Bool (2 ^ Suc n \<le> x + y + of_bool c))"
    by (simp only: par carry bitsN.simps half)
  finally show ?case .
qed

lemma bits4_bitsN: "bits4 k = bitsN 4 k"
proof -
  have four: "(4::nat) = Suc (Suc (Suc (Suc 0)))" by simp
  have b: "bitsN 4 k = [Bool (odd k), Bool (odd (k div 2)), Bool (odd (k div 2 div 2)),
      Bool (odd (k div 2 div 2 div 2))]"
    by (simp only: four bitsN.simps)
  have u: "[0..<4] = [0, 1, 2, Suc 2]" by (simp add: upt_rec)
  have d2: "k div 2 div 2 = k div 4" by arith
  have d3: "k div 4 div 2 = k div 8" by arith
  show ?thesis unfolding b d2 d3 by (simp add: bits4_def u)
qed

lemma bitsN_mod: "bitsN n (k mod 2 ^ n) = bitsN n k"
proof (induction n arbitrary: k)
  case 0
  show ?case by simp
next
  case (Suc n)
  have "k mod 2 ^ Suc n div 2 = (k div 2) mod 2 ^ n"
    by (simp add: mod_mult2_eq)
  moreover have "odd (k mod 2 ^ Suc n) = odd k"
    by (simp add: mod_mult2_eq)
  ultimately show ?case using Suc [of "k div 2"] by simp
qed

lemma add_bits4:
  assumes "x < 16" and "y < 16"
  shows "add_loop (Bool c) (zip (bits4 x) (bits4 y))
     = (bits4 ((x + y + of_bool c) mod 16), Bool (16 \<le> x + y + of_bool c))"
proof -
  from assms have "x < 2 ^ 4" "y < 2 ^ 4" by simp_all
  from add_bitsN [OF this, of c] bitsN_mod [of 4 "x + y + of_bool c"]
  show ?thesis by (simp add: bits4_bitsN)
qed

lemma allZeros_bits4_all: "\<forall>n\<in>set [0..<16]. allZeros (bits4 n) = Bool (n = 0)"
  by code_simp

lemma allZeros_bits4: "n < 16 \<Longrightarrow> allZeros (bits4 n) = Bool (n = 0)"
  using allZeros_bits4_all by simp

lemma length_bits4: "length (bits4 n) = 4"
  by (simp add: bits4_def)

lemma ALU_layout:
  assumes "length a = 4" and "length b = 4"
  shows "inputValues (a @ b @ [o0, o1, c]) ALU_INPUT_A = a"
    and "inputValues (a @ b @ [o0, o1, c]) ALU_INPUT_B = b"
    and "(a @ b @ [o0, o1, c]) ! 8 = o0"
    and "(a @ b @ [o0, o1, c]) ! 9 = o1"
    and "(a @ b @ [o0, o1, c]) ! ALU_INPUT_Cin = c"
proof -
  from assms(1) obtain a0 a1 a2 a3 where a: "a = [a0, a1, a2, a3]" by (rule length4E)
  from assms(2) obtain b0 b1 b2 b3 where b: "b = [b0, b1, b2, b3]" by (rule length4E)
  show "inputValues (a @ b @ [o0, o1, c]) ALU_INPUT_A = a"
    and "inputValues (a @ b @ [o0, o1, c]) ALU_INPUT_B = b"
    and "(a @ b @ [o0, o1, c]) ! 8 = o0"
    and "(a @ b @ [o0, o1, c]) ! 9 = o1"
    and "(a @ b @ [o0, o1, c]) ! ALU_INPUT_Cin = c"
    by (simp_all add: a b inputValues_def ALU_consts)
qed

lemma ALU_op_layout:
  assumes "length a = 4" and "length b = 4"
  shows "ALU_op (a @ b @ [o0, o1, c]) =
     (case o1 of
        Bool False \<Rightarrow> (case o0 of Bool False \<Rightarrow> Some op_add | Bool True \<Rightarrow> Some op_sub
                        | Unknown \<Rightarrow> None | HighImpedance \<Rightarrow> None)
      | Bool True \<Rightarrow> (case o0 of Bool False \<Rightarrow> Some op_or | Bool True \<Rightarrow> Some op_and
                        | Unknown \<Rightarrow> None | HighImpedance \<Rightarrow> None)
      | Unknown \<Rightarrow> None | HighImpedance \<Rightarrow> None)"
  using ALU_layout(3,4) [OF assms, of o0 o1 c]
  by (simp add: ALU_op_def ALU_INPUT_Op_def)

lemma ALU_add_known:
  assumes "x < 16" and "y < 16"
  shows "ALU_doRecalcValue (bits4 x @ bits4 y @ [Bool False, Bool False, Bool c])
     = (bits4 ((x + y + of_bool c) mod 16), Bool (16 \<le> x + y + of_bool c),
        Bool ((x + y + of_bool c) mod 16 = 0))"
proof -
  have z: "allZeros (bits4 ((x + y + of_bool c) mod 16)) = Bool ((x + y + of_bool c) mod 16 = 0)"
    by (rule allZeros_bits4) simp
  show ?thesis
    by (simp add: ALU_doRecalcValue_def ALU_op_layout ALU_layout length_bits4
        add_bits4 [OF assms] z del: of_bool_eq_iff)
qed

lemma ALU_sub_known_outputs:
  assumes "x < 16" and "y < 16"
  shows "ALU_doRecalcValue (bits4 x @ bits4 y @ [Bool True, Bool False, cin])
     = (bits4 ((16 + x - y) mod 16), Bool (x < y), Bool ((16 + x - y) mod 16 = 0))"
proof -
  have z: "allZeros (bits4 ((16 + x - y) mod 16)) = Bool ((16 + x - y) mod 16 = 0)"
    by (rule allZeros_bits4) simp
  show ?thesis
    by (simp only: ALU_doRecalcValue_def ALU_op_layout ALU_layout length_bits4
        ALU_sub_known [OF assms] z LogicValue.case bool.case option.case ALUOp.case
        Let_def prod.case)
qed

lemma allZeros_known:
  "allZeros [Bool p0, Bool p1, Bool p2, Bool p3] = Bool (\<not> p0 \<and> \<not> p1 \<and> \<not> p2 \<and> \<not> p3)"
  by (simp add: isUnknown_def isHighImpedance_def)

lemma or_bit_known: "or_bit (Bool p) (Bool q) = Bool (p \<or> q)"
  by (cases p; cases q) (simp_all add: or_bit_def)

lemma and_bit_known: "and_bit (Bool p) (Bool q) = Bool (p \<and> q)"
  by (cases p; cases q) (simp_all add: and_bit_def)

lemma ALU_or_known:
  "ALU_doRecalcValue [Bool a0, Bool a1, Bool a2, Bool a3, Bool b0, Bool b1, Bool b2, Bool b3,
       Bool False, Bool True, cin]
     = ([Bool (a0 \<or> b0), Bool (a1 \<or> b1), Bool (a2 \<or> b2), Bool (a3 \<or> b3)], Bool False,
        Bool (\<not> (a0 \<or> b0) \<and> \<not> (a1 \<or> b1) \<and> \<not> (a2 \<or> b2) \<and> \<not> (a3 \<or> b3)))"
  by (simp only: ALU_doRecalcValue_def ALU_op_def ALU_consts inputValues_def nth_Cons_numeral
      nth_Cons_0 nth_Cons_Suc list.map zip_Cons_Cons zip_Nil prod.case or_bit_known
      allZeros_known Let_def LogicValue.case bool.case option.case ALUOp.case numeral_nat
      One_nat_def diff_Suc_1)

lemma ALU_and_known:
  "ALU_doRecalcValue [Bool a0, Bool a1, Bool a2, Bool a3, Bool b0, Bool b1, Bool b2, Bool b3,
       Bool True, Bool True, cin]
     = ([Bool (a0 \<and> b0), Bool (a1 \<and> b1), Bool (a2 \<and> b2), Bool (a3 \<and> b3)], Bool False,
        Bool (\<not> (a0 \<and> b0) \<and> \<not> (a1 \<and> b1) \<and> \<not> (a2 \<and> b2) \<and> \<not> (a3 \<and> b3)))"
  by (simp only: ALU_doRecalcValue_def ALU_op_def ALU_consts inputValues_def nth_Cons_numeral
      nth_Cons_0 nth_Cons_Suc list.map zip_Cons_Cons zip_Nil prod.case and_bit_known
      allZeros_known Let_def LogicValue.case bool.case option.case ALUOp.case numeral_nat
      One_nat_def diff_Suc_1)

lemma ALU_selected:
  assumes "ALU_op inputs = Some opc"
  shows "ALU_doRecalcValue inputs =
     (case (case opc of
              op_add \<Rightarrow> add_loop (inputs ! 10)
                          (zip [inputs ! 0, inputs ! 1, inputs ! 2, inputs ! 3]
                               [inputs ! 4, inputs ! 5, inputs ! 6, inputs ! 7])
            | op_sub \<Rightarrow> ALU_sub [inputs ! 0, inputs ! 1, inputs ! 2, inputs ! 3]
                                [inputs ! 4, inputs ! 5, inputs ! 6, inputs ! 7]
            | op_and \<Rightarrow> ([and_bit (inputs ! 0) (inputs ! 4), and_bit (inputs ! 1) (inputs ! 5),
                          and_bit (inputs ! 2) (inputs ! 6), and_bit (inputs ! 3) (inputs ! 7)],
                         Bool False)
            | op_or \<Rightarrow> ([or_bit (inputs ! 0) (inputs ! 4), or_bit (inputs ! 1) (inputs ! 5),
                         or_bit (inputs ! 2) (inputs ! 6), or_bit (inputs ! 3) (inputs ! 7)],
                        Bool False)) of
        (y, v) \<Rightarrow> (y, v, allZeros y))"
  using assms
  by (cases opc)
     (simp_all only: ALU_doRecalcValue_def inputValues_def ALU_consts list.map option.case
        ALUOp.case Let_def zip_Cons_Cons zip_Nil prod.case)

text \<open>
  Claim C7. The two opcode bits, \<open>Op1\<close> (input 9) before \<open>Op0\<close> (input 8), select
  the operation, 00: add, 01: sub, 10: or, 11: and, and the selected operation is the one
  that recalculation computes from the operands \<open>A\<close> (inputs 0 to 3), \<open>B\<close> (inputs 4
  to 7) and the carry-in (input 10): the ripple addition, the subtraction, the bitwise
  or, the bitwise and. If either opcode bit is Unknown or HighImpedance, the operation is
  Unknown and the four result bits, V and Z are all Unknown. On fully known operands
  \<open>x\<close> and \<open>y\<close> the four operations are what their names say: \<open>(x + y + carry) mod 16\<close>
  with V the carry out, \<open>(x - y) mod 16\<close> with V the borrow, and the disjunction and the
  conjunction bit by bit with V false.
\<close>

theorem ALU_opcode_decoding:
  "(inputs ! 9 = Bool False \<and> inputs ! 8 = Bool False \<longrightarrow>
      ALU_op inputs = Some op_add
      \<and> ALU_doRecalcValue inputs =
          (case add_loop (inputs ! 10)
                  (zip [inputs ! 0, inputs ! 1, inputs ! 2, inputs ! 3]
                       [inputs ! 4, inputs ! 5, inputs ! 6, inputs ! 7]) of
             (y, v) \<Rightarrow> (y, v, allZeros y)))
 \<and> (inputs ! 9 = Bool False \<and> inputs ! 8 = Bool True \<longrightarrow>
      ALU_op inputs = Some op_sub
      \<and> ALU_doRecalcValue inputs =
          (case ALU_sub [inputs ! 0, inputs ! 1, inputs ! 2, inputs ! 3]
                        [inputs ! 4, inputs ! 5, inputs ! 6, inputs ! 7] of
             (y, v) \<Rightarrow> (y, v, allZeros y)))
 \<and> (inputs ! 9 = Bool True \<and> inputs ! 8 = Bool False \<longrightarrow>
      ALU_op inputs = Some op_or
      \<and> ALU_doRecalcValue inputs =
          ([or_bit (inputs ! 0) (inputs ! 4), or_bit (inputs ! 1) (inputs ! 5),
            or_bit (inputs ! 2) (inputs ! 6), or_bit (inputs ! 3) (inputs ! 7)],
           Bool False,
           allZeros [or_bit (inputs ! 0) (inputs ! 4), or_bit (inputs ! 1) (inputs ! 5),
                     or_bit (inputs ! 2) (inputs ! 6), or_bit (inputs ! 3) (inputs ! 7)]))
 \<and> (inputs ! 9 = Bool True \<and> inputs ! 8 = Bool True \<longrightarrow>
      ALU_op inputs = Some op_and
      \<and> ALU_doRecalcValue inputs =
          ([and_bit (inputs ! 0) (inputs ! 4), and_bit (inputs ! 1) (inputs ! 5),
            and_bit (inputs ! 2) (inputs ! 6), and_bit (inputs ! 3) (inputs ! 7)],
           Bool False,
           allZeros [and_bit (inputs ! 0) (inputs ! 4), and_bit (inputs ! 1) (inputs ! 5),
                     and_bit (inputs ! 2) (inputs ! 6), and_bit (inputs ! 3) (inputs ! 7)]))
 \<and> (indeterminate (inputs ! 9) \<or> indeterminate (inputs ! 8) \<longrightarrow>
      ALU_op inputs = None
      \<and> ALU_doRecalcValue inputs = ([Unknown, Unknown, Unknown, Unknown], Unknown, Unknown))
 \<and> (x < 16 \<and> y < 16 \<longrightarrow>
      ALU_doRecalcValue (bits4 x @ bits4 y @ [Bool False, Bool False, Bool c])
        = (bits4 ((x + y + of_bool c) mod 16), Bool (16 \<le> x + y + of_bool c),
           Bool ((x + y + of_bool c) mod 16 = 0))
      \<and> ALU_doRecalcValue (bits4 x @ bits4 y @ [Bool True, Bool False, cin])
        = (bits4 ((16 + x - y) mod 16), Bool (x < y), Bool ((16 + x - y) mod 16 = 0)))
 \<and> ALU_doRecalcValue [Bool a0, Bool a1, Bool a2, Bool a3, Bool b0, Bool b1, Bool b2, Bool b3,
       Bool False, Bool True, cin]
     = ([Bool (a0 \<or> b0), Bool (a1 \<or> b1), Bool (a2 \<or> b2), Bool (a3 \<or> b3)], Bool False,
        Bool (\<not> (a0 \<or> b0) \<and> \<not> (a1 \<or> b1) \<and> \<not> (a2 \<or> b2) \<and> \<not> (a3 \<or> b3)))
 \<and> ALU_doRecalcValue [Bool a0, Bool a1, Bool a2, Bool a3, Bool b0, Bool b1, Bool b2, Bool b3,
       Bool True, Bool True, cin]
     = ([Bool (a0 \<and> b0), Bool (a1 \<and> b1), Bool (a2 \<and> b2), Bool (a3 \<and> b3)], Bool False,
        Bool (\<not> (a0 \<and> b0) \<and> \<not> (a1 \<and> b1) \<and> \<not> (a2 \<and> b2) \<and> \<not> (a3 \<and> b3)))"
proof -
  have dec: "(inputs ! 9 = Bool False \<and> inputs ! 8 = Bool False \<longrightarrow> ALU_op inputs = Some op_add)
    \<and> (inputs ! 9 = Bool False \<and> inputs ! 8 = Bool True \<longrightarrow> ALU_op inputs = Some op_sub)
    \<and> (inputs ! 9 = Bool True \<and> inputs ! 8 = Bool False \<longrightarrow> ALU_op inputs = Some op_or)
    \<and> (inputs ! 9 = Bool True \<and> inputs ! 8 = Bool True \<longrightarrow> ALU_op inputs = Some op_and)
    \<and> (indeterminate (inputs ! 9) \<or> indeterminate (inputs ! 8) \<longrightarrow>
      ALU_op inputs = None
      \<and> ALU_doRecalcValue inputs = ([Unknown, Unknown, Unknown, Unknown], Unknown, Unknown))"
    by (cases "inputs ! 9"; cases "inputs ! 8")
       (auto simp: ALU_op_def ALU_doRecalcValue_def ALU_consts indeterminate_def
          split: bool.splits)
  note sel = ALU_selected [of inputs]
  show ?thesis
  proof (intro conjI impI)
    assume h: "inputs ! 9 = Bool False \<and> inputs ! 8 = Bool False"
    with dec show o: "ALU_op inputs = Some op_add" by blast
    from sel [OF o] show "ALU_doRecalcValue inputs =
          (case add_loop (inputs ! 10)
                  (zip [inputs ! 0, inputs ! 1, inputs ! 2, inputs ! 3]
                       [inputs ! 4, inputs ! 5, inputs ! 6, inputs ! 7]) of
             (y, v) \<Rightarrow> (y, v, allZeros y))" by simp
  next
    assume h: "inputs ! 9 = Bool False \<and> inputs ! 8 = Bool True"
    with dec show o: "ALU_op inputs = Some op_sub" by blast
    from sel [OF o] show "ALU_doRecalcValue inputs =
          (case ALU_sub [inputs ! 0, inputs ! 1, inputs ! 2, inputs ! 3]
                        [inputs ! 4, inputs ! 5, inputs ! 6, inputs ! 7] of
             (y, v) \<Rightarrow> (y, v, allZeros y))" by simp
  next
    assume h: "inputs ! 9 = Bool True \<and> inputs ! 8 = Bool False"
    with dec show o: "ALU_op inputs = Some op_or" by blast
    from sel [OF o] show "ALU_doRecalcValue inputs =
          ([or_bit (inputs ! 0) (inputs ! 4), or_bit (inputs ! 1) (inputs ! 5),
            or_bit (inputs ! 2) (inputs ! 6), or_bit (inputs ! 3) (inputs ! 7)],
           Bool False,
           allZeros [or_bit (inputs ! 0) (inputs ! 4), or_bit (inputs ! 1) (inputs ! 5),
                     or_bit (inputs ! 2) (inputs ! 6), or_bit (inputs ! 3) (inputs ! 7)])"
      by simp
  next
    assume h: "inputs ! 9 = Bool True \<and> inputs ! 8 = Bool True"
    with dec show o: "ALU_op inputs = Some op_and" by blast
    from sel [OF o] show "ALU_doRecalcValue inputs =
          ([and_bit (inputs ! 0) (inputs ! 4), and_bit (inputs ! 1) (inputs ! 5),
            and_bit (inputs ! 2) (inputs ! 6), and_bit (inputs ! 3) (inputs ! 7)],
           Bool False,
           allZeros [and_bit (inputs ! 0) (inputs ! 4), and_bit (inputs ! 1) (inputs ! 5),
                     and_bit (inputs ! 2) (inputs ! 6), and_bit (inputs ! 3) (inputs ! 7)])"
      by simp
  next
    assume "indeterminate (inputs ! 9) \<or> indeterminate (inputs ! 8)"
    with dec show "ALU_op inputs = None"
      and "ALU_doRecalcValue inputs = ([Unknown, Unknown, Unknown, Unknown], Unknown, Unknown)"
      by blast+
  next
    assume "x < 16 \<and> y < 16"
    then have x: "x < 16" and y: "y < 16" by simp_all
    show "ALU_doRecalcValue (bits4 x @ bits4 y @ [Bool False, Bool False, Bool c])
        = (bits4 ((x + y + of_bool c) mod 16), Bool (16 \<le> x + y + of_bool c),
           Bool ((x + y + of_bool c) mod 16 = 0))"
      by (rule ALU_add_known [OF x y])
    show "ALU_doRecalcValue (bits4 x @ bits4 y @ [Bool True, Bool False, cin])
        = (bits4 ((16 + x - y) mod 16), Bool (x < y), Bool ((16 + x - y) mod 16 = 0))"
      by (rule ALU_sub_known_outputs [OF x y])
  next
    show "ALU_doRecalcValue [Bool a0, Bool a1, Bool a2, Bool a3, Bool b0, Bool b1, Bool b2, Bool b3,
       Bool False, Bool True, cin]
     = ([Bool (a0 \<or> b0), Bool (a1 \<or> b1), Bool (a2 \<or> b2), Bool (a3 \<or> b3)], Bool False,
        Bool (\<not> (a0 \<or> b0) \<and> \<not> (a1 \<or> b1) \<and> \<not> (a2 \<or> b2) \<and> \<not> (a3 \<or> b3)))"
      by (rule ALU_or_known)
  next
    show "ALU_doRecalcValue [Bool a0, Bool a1, Bool a2, Bool a3, Bool b0, Bool b1, Bool b2, Bool b3,
       Bool True, Bool True, cin]
     = ([Bool (a0 \<and> b0), Bool (a1 \<and> b1), Bool (a2 \<and> b2), Bool (a3 \<and> b3)], Bool False,
        Bool (\<not> (a0 \<and> b0) \<and> \<not> (a1 \<and> b1) \<and> \<not> (a2 \<and> b2) \<and> \<not> (a3 \<and> b3)))"
      by (rule ALU_and_known)
  qed
qed

text \<open>
  Instances with \<open>A = 3\<close> and \<open>B = 5\<close>, least significant bit first: the sum is 8, the
  difference is 14 with a borrow, the disjunction is 7 and the conjunction is 1; a
  HighImpedance opcode bit makes every output Unknown.
\<close>

theorem ALU_opcode_decoding_witness:
  "ALU_op [Bool True, Bool True, Bool False, Bool False,
           Bool True, Bool False, Bool True, Bool False,
           Bool False, Bool False, Bool False] = Some op_add
 \<and> ALU_doRecalcValue [Bool True, Bool True, Bool False, Bool False,
           Bool True, Bool False, Bool True, Bool False,
           Bool False, Bool False, Bool False]
     = ([Bool False, Bool False, Bool False, Bool True], Bool False, Bool False)
 \<and> ALU_op [Bool True, Bool True, Bool False, Bool False,
           Bool True, Bool False, Bool True, Bool False,
           Bool True, Bool False, Bool False] = Some op_sub
 \<and> ALU_doRecalcValue [Bool True, Bool True, Bool False, Bool False,
           Bool True, Bool False, Bool True, Bool False,
           Bool True, Bool False, Bool False]
     = ([Bool False, Bool True, Bool True, Bool True], Bool True, Bool False)
 \<and> ALU_op [Bool True, Bool True, Bool False, Bool False,
           Bool True, Bool False, Bool True, Bool False,
           Bool False, Bool True, Bool False] = Some op_or
 \<and> ALU_doRecalcValue [Bool True, Bool True, Bool False, Bool False,
           Bool True, Bool False, Bool True, Bool False,
           Bool False, Bool True, Bool False]
     = ([Bool True, Bool True, Bool True, Bool False], Bool False, Bool False)
 \<and> ALU_op [Bool True, Bool True, Bool False, Bool False,
           Bool True, Bool False, Bool True, Bool False,
           Bool True, Bool True, Bool False] = Some op_and
 \<and> ALU_doRecalcValue [Bool True, Bool True, Bool False, Bool False,
           Bool True, Bool False, Bool True, Bool False,
           Bool True, Bool True, Bool False]
     = ([Bool True, Bool False, Bool False, Bool False], Bool False, Bool False)
 \<and> ALU_doRecalcValue [Bool True, Bool True, Bool False, Bool False,
           Bool True, Bool False, Bool True, Bool False,
           HighImpedance, Bool True, Bool False]
     = ([Unknown, Unknown, Unknown, Unknown], Unknown, Unknown)"
proof -
  have b: "bits4 3 = [Bool True, Bool True, Bool False, Bool False]"
    "bits4 5 = [Bool True, Bool False, Bool True, Bool False]"
    "bits4 8 = [Bool False, Bool False, Bool False, Bool True]"
    "bits4 14 = [Bool False, Bool True, Bool True, Bool True]"
    by code_simp+
  note t = ALU_opcode_decoding [where x = 3 and y = 5 and c = False and cin = "Bool False"
      and ?a0.0 = True and ?a1.0 = True and ?a2.0 = False and ?a3.0 = False
      and ?b0.0 = True and ?b1.0 = False and ?b2.0 = True and ?b3.0 = False]
  have arith: "(3::nat) < 16 \<and> (5::nat) < 16" by simp
  from t [of "[]"] arith
  have add: "ALU_doRecalcValue (bits4 3 @ bits4 5 @ [Bool False, Bool False, Bool False])
      = (bits4 8, Bool False, Bool False)"
    and sub: "ALU_doRecalcValue (bits4 3 @ bits4 5 @ [Bool True, Bool False, Bool False])
      = (bits4 14, Bool True, Bool False)"
    by simp_all
  from t [of "[]"]
  have or: "ALU_doRecalcValue [Bool True, Bool True, Bool False, Bool False,
           Bool True, Bool False, Bool True, Bool False,
           Bool False, Bool True, Bool False]
     = ([Bool True, Bool True, Bool True, Bool False], Bool False, Bool False)"
    and "and": "ALU_doRecalcValue [Bool True, Bool True, Bool False, Bool False,
           Bool True, Bool False, Bool True, Bool False,
           Bool True, Bool True, Bool False]
     = ([Bool True, Bool False, Bool False, Bool False], Bool False, Bool False)"
    by simp_all
  have ops: "ALU_op [Bool True, Bool True, Bool False, Bool False,
           Bool True, Bool False, Bool True, Bool False,
           Bool False, Bool False, Bool False] = Some op_add"
    "ALU_op [Bool True, Bool True, Bool False, Bool False,
           Bool True, Bool False, Bool True, Bool False,
           Bool True, Bool False, Bool False] = Some op_sub"
    "ALU_op [Bool True, Bool True, Bool False, Bool False,
           Bool True, Bool False, Bool True, Bool False,
           Bool False, Bool True, Bool False] = Some op_or"
    "ALU_op [Bool True, Bool True, Bool False, Bool False,
           Bool True, Bool False, Bool True, Bool False,
           Bool True, Bool True, Bool False] = Some op_and"
    using
      t [of "[Bool True, Bool True, Bool False, Bool False,
           Bool True, Bool False, Bool True, Bool False,
           Bool False, Bool False, Bool False]"]
      t [of "[Bool True, Bool True, Bool False, Bool False,
           Bool True, Bool False, Bool True, Bool False,
           Bool True, Bool False, Bool False]"]
      t [of "[Bool True, Bool True, Bool False, Bool False,
           Bool True, Bool False, Bool True, Bool False,
           Bool False, Bool True, Bool False]"]
      t [of "[Bool True, Bool True, Bool False, Bool False,
           Bool True, Bool False, Bool True, Bool False,
           Bool True, Bool True, Bool False]"]
    by simp_all
  have unk: "ALU_doRecalcValue [Bool True, Bool True, Bool False, Bool False,
           Bool True, Bool False, Bool True, Bool False,
           HighImpedance, Bool True, Bool False]
     = ([Unknown, Unknown, Unknown, Unknown], Unknown, Unknown)"
    using t [of "[Bool True, Bool True, Bool False, Bool False,
           Bool True, Bool False, Bool True, Bool False,
           HighImpedance, Bool True, Bool False]"]
    by (simp add: indeterminate_def)
  from add sub or "and" ops unk show ?thesis unfolding b by simp
qed


section \<open>Properties of the RAM\<close>

lemmas RAM_consts = RAM_INPUT_Clock_def RAM_INPUT_WriteEnable_def RAM_INPUT_Clear_def
  RAM_INPUT_Data_def RAM_INPUT_Address_def WORD_WIDTH_def NUM_CELLS_def

subsection \<open>Recalculation\<close>

lemma displayValuesFromArray_bound: "displayValuesFromArray vs = Some n \<Longrightarrow> n < 2 ^ length vs"
proof (induction vs arbitrary: n)
  case Nil
  then show ?case by simp
next
  case (Cons v vs)
  then show ?case by (auto split: LogicValue.splits option.splits)
qed

lemma currentAddress_bound: "currentAddress inputs = Some n \<Longrightarrow> n < NUM_CELLS"
  using displayValuesFromArray_bound [of "inputValues inputs RAM_INPUT_Address" n]
  by (simp add: currentAddress_def inputValues_def RAM_consts)

lemma displayValuesFromArray_None:
  "(displayValuesFromArray vs = None) = (\<exists>v\<in>set vs. indeterminate v)"
  by (induction vs) (auto simp: indeterminate_def split: LogicValue.splits option.splits)

lemma write_cell: "length m = k \<Longrightarrow> map (\<lambda>i. if i = n then d else m ! i) [0..<k] = m[n := d]"
  by (auto intro: nth_equalityI)

lemma valueFilledWith_eq:
  "valueFilledWith v = \<lparr>mem = replicate 16 [v, v, v, v], out = [v, v, v, v]\<rparr>"
  by (simp add: valueFilledWith_def FixedArrayFill_def RAM_consts map_replicate_const numeral_eq_Suc)

text \<open>
  Claim C2, as stated, fails: an Unknown address does modify the stored memory when a
  write is triggered. With a rising-edge RAM holding zeros, remembered clock false,
  clock true, write-enable true, clear false and an Unknown address bit, every word
  becomes Unknown.
\<close>

theorem RAM_unknown_address_counterexample:
  "currentAddress
      [Bool True, Bool True, Bool False,
       Bool True, Bool False, Bool True, Bool False,
       Unknown, Bool False, Bool False, Bool False] = None
   \<and> mem (fst (RAM_doRecalcValue
        \<lparr>ram_value = valueFilledWith (Bool False), ram_trigger = rising,
         ram_lastClock = Bool False\<rparr>
        [Bool True, Bool True, Bool False,
         Bool True, Bool False, Bool True, Bool False,
         Unknown, Bool False, Bool False, Bool False]))
     = replicate 16 [Unknown, Unknown, Unknown, Unknown]
   \<and> mem (valueFilledWith (Bool False))
     = replicate 16 [Bool False, Bool False, Bool False, Bool False]"
  by (simp add: RAM_doRecalcValue_def currentAddress_def inputValues_def RAM_consts
      isClockTrigger_def valueFilledWith_eq)

text \<open>
  Claim C2, amended. For a RAM holding 16 words, recalculation obeys this order:
  (1) if clear is true, all 16 words and the output become all-false;
  (2) else if the decoded address is Unknown, the output is all-Unknown, and the memory
      is unchanged unless write-enable is true and the clock transition satisfies the
      configured edge trigger, in which case all 16 words become all-Unknown;
  (3) else if write-enable is true and the clock transition satisfies the edge trigger,
      the addressed word is replaced by the 4 data-input bits and that word is the output;
  (4) otherwise the output is the word at the decoded address and the memory is
      unchanged.
\<close>

theorem RAM_recalc_priority:
  assumes "length (mem (ram_value this)) = NUM_CELLS"
  shows "(inputs ! RAM_INPUT_Clear = Bool True \<longrightarrow>
            fst (RAM_doRecalcValue this inputs) = valueFilledWith (Bool False))
    \<and> (inputs ! RAM_INPUT_Clear \<noteq> Bool True \<and> currentAddress inputs = None
          \<and> \<not> write_triggered this inputs \<longrightarrow>
            fst (RAM_doRecalcValue this inputs)
              = \<lparr>mem = mem (ram_value this), out = [Unknown, Unknown, Unknown, Unknown]\<rparr>)
    \<and> (inputs ! RAM_INPUT_Clear \<noteq> Bool True \<and> currentAddress inputs = None
          \<and> write_triggered this inputs \<longrightarrow>
            fst (RAM_doRecalcValue this inputs) = valueFilledWith Unknown)
    \<and> (\<forall>n. inputs ! RAM_INPUT_Clear \<noteq> Bool True \<and> currentAddress inputs = Some n
          \<and> write_triggered this inputs \<longrightarrow>
            n < NUM_CELLS
            \<and> fst (RAM_doRecalcValue this inputs)
              = \<lparr>mem = (mem (ram_value this))[n := inputValues inputs RAM_INPUT_Data],
                 out = inputValues inputs RAM_INPUT_Data\<rparr>)
    \<and> (\<forall>n. inputs ! RAM_INPUT_Clear \<noteq> Bool True \<and> currentAddress inputs = Some n
          \<and> \<not> write_triggered this inputs \<longrightarrow>
            n < NUM_CELLS
            \<and> fst (RAM_doRecalcValue this inputs)
              = \<lparr>mem = mem (ram_value this), out = mem (ram_value this) ! n\<rparr>)
    \<and> valueFilledWith v = \<lparr>mem = replicate 16 [v, v, v, v], out = [v, v, v, v]\<rparr>"
  using assms
  by (auto simp: RAM_doRecalcValue_def write_triggered_def Let_def write_cell
      valueFilledWith_eq dest: currentAddress_bound)

theorem RAM_recalc_priority_witness:
  "length (mem (ram_value \<lparr>ram_value = valueFilledWith (Bool False), ram_trigger = rising,
                          ram_lastClock = Bool False\<rparr>)) = NUM_CELLS
   \<and> currentAddress
        [Bool True, Bool True, Bool False,
         Bool True, Bool False, Bool True, Bool False,
         Bool True, Bool False, Bool False, Bool False] = Some 1
   \<and> write_triggered
        \<lparr>ram_value = valueFilledWith (Bool False), ram_trigger = rising,
         ram_lastClock = Bool False\<rparr>
        [Bool True, Bool True, Bool False,
         Bool True, Bool False, Bool True, Bool False,
         Bool True, Bool False, Bool False, Bool False]
   \<and> fst (RAM_doRecalcValue
        \<lparr>ram_value = valueFilledWith (Bool False), ram_trigger = rising,
         ram_lastClock = Bool False\<rparr>
        [Bool True, Bool True, Bool False,
         Bool True, Bool False, Bool True, Bool False,
         Bool True, Bool False, Bool False, Bool False])
     = \<lparr>mem = (replicate 16 [Bool False, Bool False, Bool False, Bool False])
                [1 := [Bool True, Bool False, Bool True, Bool False]],
        out = [Bool True, Bool False, Bool True, Bool False]\<rparr>
   \<and> \<not> write_triggered
        \<lparr>ram_value = valueFilledWith (Bool False), ram_trigger = rising,
         ram_lastClock = Bool False\<rparr>
        [Bool False, Bool True, Bool False,
         Bool True, Bool False, Bool True, Bool False,
         Unknown, Bool False, Bool False, Bool False]
   \<and> fst (RAM_doRecalcValue
        \<lparr>ram_value = valueFilledWith (Bool False), ram_trigger = rising,
         ram_lastClock = Bool False\<rparr>
        [Bool False, Bool True, Bool False,
         Bool True, Bool False, Bool True, Bool False,
         Unknown, Bool False, Bool False, Bool False])
     = \<lparr>mem = replicate 16 [Bool False, Bool False, Bool False, Bool False],
        out = [Unknown, Unknown, Unknown, Unknown]\<rparr>"
proof -
  let ?ram = "\<lparr>ram_value = valueFilledWith (Bool False), ram_trigger = rising,
               ram_lastClock = Bool False\<rparr>"
  let ?w = "[Bool True, Bool True, Bool False,
         Bool True, Bool False, Bool True, Bool False,
         Bool True, Bool False, Bool False, Bool False]"
  let ?r = "[Bool False, Bool True, Bool False,
         Bool True, Bool False, Bool True, Bool False,
         Unknown, Bool False, Bool False, Bool False]"
  have len: "length (mem (ram_value ?ram)) = NUM_CELLS"
    by (simp add: valueFilledWith_eq RAM_consts)
  have clr: "?w ! RAM_INPUT_Clear \<noteq> Bool True" "?r ! RAM_INPUT_Clear \<noteq> Bool True"
    by (simp_all add: RAM_consts)
  have addr: "currentAddress ?w = Some 1" "currentAddress ?r = None"
    by (simp_all add: currentAddress_def inputValues_def RAM_consts)
  have wt: "write_triggered ?ram ?w" "\<not> write_triggered ?ram ?r"
    by (simp_all add: write_triggered_def isClockTrigger_def RAM_consts)
  have data: "inputValues ?w RAM_INPUT_Data = [Bool True, Bool False, Bool True, Bool False]"
    by (simp add: inputValues_def RAM_consts)
  from RAM_recalc_priority [OF len, of ?w] clr(1) addr(1) wt(1)
  have 1: "fst (RAM_doRecalcValue ?ram ?w)
      = \<lparr>mem = (mem (ram_value ?ram))[1 := inputValues ?w RAM_INPUT_Data],
         out = inputValues ?w RAM_INPUT_Data\<rparr>"
    by blast
  from RAM_recalc_priority [OF len, of ?r] clr(2) addr(2) wt(2)
  have 2: "fst (RAM_doRecalcValue ?ram ?r)
      = \<lparr>mem = mem (ram_value ?ram), out = [Unknown, Unknown, Unknown, Unknown]\<rparr>"
    by blast
  have m: "mem (ram_value ?ram) = replicate 16 [Bool False, Bool False, Bool False, Bool False]"
    by (simp add: valueFilledWith_eq)
  from len addr wt 1 2 show ?thesis unfolding data m by simp
qed

text \<open>
  Claim C10. While the clear input is true, a recalculation returns the all-zero state
  and leaves the component, and with it the remembered previous clock, as it was: the
  remembered clock keeps the value it had before clear was asserted, through any number
  of recalculations with clear true, whatever the clock does meanwhile.
\<close>

theorem RAM_clear_keeps_lastClock:
  "(inputs ! RAM_INPUT_Clear = Bool True \<longrightarrow>
      RAM_doRecalcValue this inputs = (valueFilledWith (Bool False), this)
      \<and> ram_lastClock (RAM_recalc this inputs) = ram_lastClock this)
   \<and> ((\<forall>inputs\<in>set inputss. inputs ! RAM_INPUT_Clear = Bool True) \<longrightarrow>
      ram_lastClock (foldl RAM_recalc this inputss) = ram_lastClock this)"
proof -
  have one: "ram_lastClock (RAM_recalc t i) = ram_lastClock t"
    if "i ! RAM_INPUT_Clear = Bool True" for t i
    using that by (simp add: RAM_recalc_def RAM_doRecalcValue_def)
  have many: "\<forall>inputs\<in>set inputss. inputs ! RAM_INPUT_Clear = Bool True \<Longrightarrow>
      ram_lastClock (foldl RAM_recalc t inputss) = ram_lastClock t" for t
    by (induction inputss arbitrary: t) (simp_all add: one)
  show ?thesis using one many by (auto simp: RAM_doRecalcValue_def)
qed

text \<open>
  An instance: the clock rises while clear is true; the remembered clock stays false, so
  once clear is released with the clock still true a write is triggered.
\<close>

theorem RAM_clear_keeps_lastClock_witness:
  "[Bool True, Bool True, Bool True,
    Bool True, Bool False, Bool True, Bool False,
    Bool False, Bool False, Bool False, Bool False] ! RAM_INPUT_Clear = Bool True
   \<and> RAM_doRecalcValue
        \<lparr>ram_value = valueFilledWith Unknown, ram_trigger = rising, ram_lastClock = Bool False\<rparr>
        [Bool True, Bool True, Bool True,
         Bool True, Bool False, Bool True, Bool False,
         Bool False, Bool False, Bool False, Bool False]
     = (valueFilledWith (Bool False),
        \<lparr>ram_value = valueFilledWith Unknown, ram_trigger = rising, ram_lastClock = Bool False\<rparr>)
   \<and> ram_lastClock (RAM_recalc
        \<lparr>ram_value = valueFilledWith Unknown, ram_trigger = rising, ram_lastClock = Bool False\<rparr>
        [Bool True, Bool True, Bool True,
         Bool True, Bool False, Bool True, Bool False,
         Bool False, Bool False, Bool False, Bool False]) = Bool False
   \<and> write_triggered (RAM_recalc
        \<lparr>ram_value = valueFilledWith Unknown, ram_trigger = rising, ram_lastClock = Bool False\<rparr>
        [Bool True, Bool True, Bool True,
         Bool True, Bool False, Bool True, Bool False,
         Bool False, Bool False, Bool False, Bool False])
        [Bool True, Bool True, Bool False,
         Bool True, Bool False, Bool True, Bool False,
         Bool False, Bool False, Bool False, Bool False]"
proof -
  let ?ram = "\<lparr>ram_value = valueFilledWith Unknown, ram_trigger = rising,
               ram_lastClock = Bool False\<rparr>"
  let ?c = "[Bool True, Bool True, Bool True,
         Bool True, Bool False, Bool True, Bool False,
         Bool False, Bool False, Bool False, Bool False]"
  have clr: "?c ! RAM_INPUT_Clear = Bool True" by (simp add: RAM_consts)
  from RAM_clear_keeps_lastClock [of ?c ?ram "[]"] clr
  have 1: "RAM_doRecalcValue ?ram ?c = (valueFilledWith (Bool False), ?ram)"
    and 2: "ram_lastClock (RAM_recalc ?ram ?c) = Bool False"
    by simp_all
  have 3: "ram_trigger (RAM_recalc ?ram ?c) = rising"
    by (simp add: RAM_recalc_def 1)
  from clr 1 2 3 show ?thesis
    by (simp add: write_triggered_def isClockTrigger_def RAM_consts)
qed

subsection \<open>Persistence\<close>

lemma savedRow_cell_of:
  assumes inv: "\<And>v. fromChar (repr v) = v" and len: "length w = WORD_WIDTH"
  shows "savedRow fromChar (cell_of repr w) = w"
proof -
  from len have "length w = 4" by (simp add: RAM_consts)
  then obtain a b c d where w: "w = [a, b, c, d]" by (rule length4E)
  have "[0..<4] = [0, 1, 2, 3]" by (simp add: upt_rec)
  then show ?thesis
    by (simp add: savedRow_def cell_of_def w RAM_consts inv)
qed

lemma cell_of_zero_iff:
  assumes inv: "\<And>v. fromChar (repr v) = v" and zero: "repr (Bool False) = CHR ''0''"
    and len: "length w = WORD_WIDTH"
  shows "(cell_of repr w = ''0000'') = (w = FixedArrayFill (Bool False) WORD_WIDTH)"
proof -
  from len have "length w = 4" by (simp add: RAM_consts)
  then obtain a b c d where w: "w = [a, b, c, d]" by (rule length4E)
  have z: "(repr v = CHR ''0'') = (v = Bool False)" for v
    using inv [of v] inv [of "Bool False"] zero by metis
  have "replicate 4 (Bool False) = [Bool False, Bool False, Bool False, Bool False]"
    by (simp add: numeral_eq_Suc)
  then show ?thesis
    by (auto simp add: cell_of_def w z FixedArrayFill_def RAM_consts)
qed

lemma trim_Nil: "trimTrailingZeroCells [] = []"
  by (simp add: trimTrailingZeroCells_def)

lemma trim_snoc:
  "trimTrailingZeroCells (cells @ [cell]) =
     (if cell = ''0000'' then trimTrailingZeroCells cells else cells @ [cell])"
  by (simp add: trimTrailingZeroCells_def)

lemma length_trim: "length (trimTrailingZeroCells cells) \<le> length cells"
  by (simp add: trimTrailingZeroCells_def length_dropWhile_le [of _ "rev cells", simplified])

lemma trim_last:
  "trimTrailingZeroCells cells \<noteq> [] \<Longrightarrow> last (trimTrailingZeroCells cells) \<noteq> ''0000''"
  by (induction cells rule: rev_induct) (auto simp: trim_snoc trim_Nil split: if_splits)

lemma trim_take:
  "trimTrailingZeroCells cells = take (length (trimTrailingZeroCells cells)) cells"
proof (induction cells rule: rev_induct)
  case Nil
  show ?case by (simp add: trim_Nil)
next
  case (snoc cell cells)
  show ?case
  proof (cases "cell = ''0000''")
    case True
    have "take (length (trimTrailingZeroCells cells)) (cells @ [cell])
        = take (length (trimTrailingZeroCells cells)) cells"
      using length_trim [of cells] by simp
    with snoc True show ?thesis by (simp add: trim_snoc)
  next
    case False
    then show ?thesis by (simp add: trim_snoc)
  qed
qed

lemma set_trim: "set (trimTrailingZeroCells cells) \<subseteq> set cells"
  by (auto simp: trimTrailingZeroCells_def dest: set_dropWhileD)

lemma loaded_trim:
  assumes inv: "\<And>v. fromChar (repr v) = v" and zero: "repr (Bool False) = CHR ''0''"
  shows "\<forall>w\<in>set ws. length w = WORD_WIDTH \<Longrightarrow> i < length ws \<Longrightarrow>
     loaded_row fromChar (trimTrailingZeroCells (map (cell_of repr) ws)) i = ws ! i"
proof (induction ws rule: rev_induct)
  case Nil
  then show ?case by simp
next
  case (snoc w ws)
  from snoc.prems have lw: "length w = WORD_WIDTH" and lws: "\<forall>w\<in>set ws. length w = WORD_WIDTH"
    by simp_all
  show ?case
  proof (cases "cell_of repr w = ''0000''")
    case True
    then have w0: "w = FixedArrayFill (Bool False) WORD_WIDTH"
      using cell_of_zero_iff [OF inv zero lw] by simp
    show ?thesis
    proof (cases "i < length ws")
      case True
      with snoc.IH [OF lws] \<open>cell_of repr w = ''0000''\<close> show ?thesis
        by (simp add: trim_snoc nth_append)
    next
      case False
      with snoc.prems have i: "i = length ws" by simp
      have "length (trimTrailingZeroCells (map (cell_of repr) ws)) \<le> length ws"
        using length_trim [of "map (cell_of repr) ws"] by simp
      with i True w0 show ?thesis
        by (simp add: trim_snoc loaded_row_def)
    qed
  next
    case False
    have row: "savedRow fromChar (cell_of repr ((ws @ [w]) ! i)) = (ws @ [w]) ! i"
      using snoc.prems by (intro savedRow_cell_of [OF inv]) (auto simp: nth_append)
    from False have t: "trimTrailingZeroCells (map (cell_of repr) (ws @ [w]))
        = map (cell_of repr) (ws @ [w])"
      by (simp add: trim_snoc)
    from snoc.prems(2) row show ?thesis
      unfolding t loaded_row_def by (simp del: map_append)
  qed
qed

lemma fromChar_repr: "toLogicValueFromChar (toLogicValueRepr v) = v"
  by (cases v rule: toLogicValueRepr.cases) (simp_all add: toLogicValueFromChar_def)

text \<open>What loading makes of any saved list, with any reader of characters.\<close>

lemma savedStateFrom_rows:
  "length (mem (savedStateFrom reader (Some saved))) = NUM_CELLS"
  "i < NUM_CELLS \<Longrightarrow> mem (savedStateFrom reader (Some saved)) ! i = loaded_row reader saved i"
  by (simp_all add: savedStateFrom_def Let_def loaded_row_def)

lemma loaded_row_missing:
  "length saved \<le> i \<Longrightarrow> loaded_row reader saved i = [Bool False, Bool False, Bool False, Bool False]"
  by (simp add: loaded_row_def FixedArrayFill_def RAM_consts numeral_eq_Suc)

lemma savedRow_bits:
  "length (savedRow reader savedBits) = WORD_WIDTH"
  "j < WORD_WIDTH \<Longrightarrow> savedRow reader savedBits ! j =
     (if j < length savedBits then reader (savedBits ! (length savedBits - 1 - j)) else Bool False)"
  by (auto simp: savedRow_def Let_def)

text \<open>
  Claim C6. Let the representation of a value be one character, with \<^verbatim>\<open>0\<close> for false,
  and let reading a character invert it. For a RAM of 16 words of 4 bits, serialization
  emits the stored words in order, each as a string of 4 characters, and trims the trailing
  \<^verbatim>\<open>0000\<close> cells (emitting nothing when all are trimmed); and loading the serialized
  state yields exactly the original 16-word memory. Loading, of any saved list and with
  any reader of characters, builds 16 words of 4 bits: a word missing from the saved list
  is zero, and in a word whose saved string is shorter than 4 characters the missing high
  bits are zero, bit \<open>j\<close> being read from the character \<open>j\<close> places before the last;
  with nothing saved every word is zero.
\<close>

theorem RAM_persistence_roundtrip:
  assumes inv: "\<And>v. fromChar (repr v) = v" and zero: "repr (Bool False) = CHR ''0''"
    and len: "length (mem v) = NUM_CELLS" and words: "\<forall>w\<in>set (mem v). length w = WORD_WIDTH"
  shows "mem (savedStateFrom fromChar (contentRepr repr v)) = mem v
    \<and> (case contentRepr repr v of
          None \<Rightarrow> True
        | Some cells \<Rightarrow> cells \<noteq> [] \<and> length cells \<le> NUM_CELLS
            \<and> cells = take (length cells) (map (cell_of repr) (mem v))
            \<and> (\<forall>cell\<in>set cells. length cell = 4) \<and> last cells \<noteq> ''0000'')
    \<and> savedStateFrom reader None = valueFilledWith (Bool False)
    \<and> length (mem (savedStateFrom reader (Some saved))) = NUM_CELLS
    \<and> (\<forall>i<NUM_CELLS. length saved \<le> i \<longrightarrow>
          mem (savedStateFrom reader (Some saved)) ! i
            = [Bool False, Bool False, Bool False, Bool False])
    \<and> (\<forall>i<NUM_CELLS. i < length saved \<longrightarrow>
          length (mem (savedStateFrom reader (Some saved)) ! i) = WORD_WIDTH
          \<and> (\<forall>j<WORD_WIDTH.
                mem (savedStateFrom reader (Some saved)) ! i ! j
                  = (if j < length (saved ! i)
                     then reader (saved ! i ! (length (saved ! i) - 1 - j))
                     else Bool False)))"
proof -
  let ?all = "map (\<lambda>addr. rev (map repr (mem v ! addr))) [0..<NUM_CELLS]"
  let ?cells = "trimTrailingZeroCells ?all"
  have all: "?all = map (cell_of repr) (mem v)"
    using len by (auto simp: cell_of_def intro: nth_equalityI)
  have load: "mem (savedStateFrom fromChar (contentRepr repr v))
      = map (loaded_row fromChar ?cells) [0..<NUM_CELLS]"
    by (auto simp: contentRepr_def savedStateFrom_def Let_def loaded_row_def valueFilledWith_def)
  have "map (loaded_row fromChar ?cells) [0..<NUM_CELLS] = mem v"
    using len loaded_trim [OF inv zero words] by (auto simp: all intro: nth_equalityI)
  with load have 1: "mem (savedStateFrom fromChar (contentRepr repr v)) = mem v" by simp
  have l4: "\<forall>cell\<in>set ?all. length cell = 4"
    unfolding all using words by (auto simp: cell_of_def RAM_consts)
  have 2: "?cells \<noteq> [] \<Longrightarrow> length ?cells \<le> NUM_CELLS
      \<and> (\<forall>cell\<in>set ?cells. length cell = 4) \<and> last ?cells \<noteq> ''0000''"
    using length_trim [of ?all] set_trim [of ?all] l4 trim_last [of ?all] by auto
  have 3: "?cells = take (length ?cells) (map (cell_of repr) (mem v))"
    using trim_take [of ?all] unfolding all .
  have 4: "savedStateFrom reader None = valueFilledWith (Bool False)"
    by (simp add: savedStateFrom_def)
  have 5: "\<forall>i<NUM_CELLS. length saved \<le> i \<longrightarrow>
      mem (savedStateFrom reader (Some saved)) ! i
        = [Bool False, Bool False, Bool False, Bool False]"
    by (simp add: savedStateFrom_rows loaded_row_missing)
  have 6: "\<forall>i<NUM_CELLS. i < length saved \<longrightarrow>
      length (mem (savedStateFrom reader (Some saved)) ! i) = WORD_WIDTH
      \<and> (\<forall>j<WORD_WIDTH.
            mem (savedStateFrom reader (Some saved)) ! i ! j
              = (if j < length (saved ! i)
                 then reader (saved ! i ! (length (saved ! i) - 1 - j))
                 else Bool False))"
    by (simp add: savedStateFrom_rows loaded_row_def savedRow_bits)
  have 123: "mem (savedStateFrom fromChar (contentRepr repr v)) = mem v
    \<and> (case contentRepr repr v of
          None \<Rightarrow> True
        | Some cells \<Rightarrow> cells \<noteq> [] \<and> length cells \<le> NUM_CELLS
            \<and> cells = take (length cells) (map (cell_of repr) (mem v))
            \<and> (\<forall>cell\<in>set cells. length cell = 4) \<and> last cells \<noteq> ''0000'')"
    using 1 2 3 by (auto simp: contentRepr_def Let_def)
  from 123 4 savedStateFrom_rows(1) [of reader saved] 5 6 show ?thesis by (intro conjI) blast+
qed

theorem RAM_persistence_roundtrip_witness:
  "toLogicValueRepr (Bool False) = CHR ''0''
   \<and> length (mem \<lparr>mem = [Bool False, Bool False, Bool False, Bool False]
                       # [Bool True, Bool False, Unknown, HighImpedance]
                       # replicate 14 [Bool False, Bool False, Bool False, Bool False],
                  out = [Bool False, Bool False, Bool False, Bool False]\<rparr>) = NUM_CELLS
   \<and> contentRepr toLogicValueRepr
        \<lparr>mem = [Bool False, Bool False, Bool False, Bool False]
               # [Bool True, Bool False, Unknown, HighImpedance]
               # replicate 14 [Bool False, Bool False, Bool False, Bool False],
         out = [Bool False, Bool False, Bool False, Bool False]\<rparr>
     = Some [''0000'', ''Z?01'']
   \<and> mem (savedStateFrom toLogicValueFromChar (Some [''0000'', ''Z?01'']))
     = [Bool False, Bool False, Bool False, Bool False]
       # [Bool True, Bool False, Unknown, HighImpedance]
       # replicate 14 [Bool False, Bool False, Bool False, Bool False]
   \<and> mem (savedStateFrom toLogicValueFromChar (Some [''1'', ''10''])) ! 5
     = [Bool False, Bool False, Bool False, Bool False]
   \<and> mem (savedStateFrom toLogicValueFromChar (Some [''1'', ''10''])) ! 1 ! 1 = Bool True
   \<and> mem (savedStateFrom toLogicValueFromChar (Some [''1'', ''10''])) ! 1 ! 3 = Bool False
   \<and> mem (savedStateFrom toLogicValueFromChar (Some [''1'', ''10'']))
     = [Bool True, Bool False, Bool False, Bool False]
       # [Bool False, Bool True, Bool False, Bool False]
       # replicate 14 [Bool False, Bool False, Bool False, Bool False]"
proof -
  let ?v = "\<lparr>mem = [Bool False, Bool False, Bool False, Bool False]
               # [Bool True, Bool False, Unknown, HighImpedance]
               # replicate 14 [Bool False, Bool False, Bool False, Bool False],
         out = [Bool False, Bool False, Bool False, Bool False]\<rparr>"
  have zero: "toLogicValueRepr (Bool False) = CHR ''0''" by simp
  have len: "length (mem ?v) = NUM_CELLS" by (simp add: RAM_consts)
  have words: "\<forall>w\<in>set (mem ?v). length w = WORD_WIDTH" by (simp add: RAM_consts)
  have repr: "contentRepr toLogicValueRepr ?v = Some [''0000'', ''Z?01'']"
    by code_simp
  note t = RAM_persistence_roundtrip [of toLogicValueFromChar toLogicValueRepr ?v
      toLogicValueFromChar "[''1'', ''10'']", OF fromChar_repr zero len words]
  from t
  have rt: "mem (savedStateFrom toLogicValueFromChar (contentRepr toLogicValueRepr ?v)) = mem ?v"
    by blast
  have i5: "(5::nat) < NUM_CELLS" "length [''1'', ''10''] \<le> (5::nat)"
    and i1: "(1::nat) < NUM_CELLS" "(1::nat) < length [''1'', ''10'']"
    and j: "(1::nat) < WORD_WIDTH" "(3::nat) < WORD_WIDTH"
    by (simp_all add: RAM_consts)
  from t i5 have missing: "mem (savedStateFrom toLogicValueFromChar (Some [''1'', ''10''])) ! 5
      = [Bool False, Bool False, Bool False, Bool False]"
    by blast
  from t i1 have row: "\<forall>j<WORD_WIDTH.
      mem (savedStateFrom toLogicValueFromChar (Some [''1'', ''10''])) ! 1 ! j
        = (if j < length ([''1'', ''10''] ! 1)
           then toLogicValueFromChar ([''1'', ''10''] ! 1 ! (length ([''1'', ''10''] ! 1) - 1 - j))
           else Bool False)"
    by blast
  from row j have short:
    "mem (savedStateFrom toLogicValueFromChar (Some [''1'', ''10''])) ! 1 ! 1 = Bool True"
    "mem (savedStateFrom toLogicValueFromChar (Some [''1'', ''10''])) ! 1 ! 3 = Bool False"
    by (simp_all add: toLogicValueFromChar_def)
  have whole: "mem (savedStateFrom toLogicValueFromChar (Some [''1'', ''10'']))
     = [Bool True, Bool False, Bool False, Bool False]
       # [Bool False, Bool True, Bool False, Bool False]
       # replicate 14 [Bool False, Bool False, Bool False, Bool False]"
    by code_simp
  from zero len repr rt missing short whole show ?thesis by simp
qed


section \<open>Properties of the nodes\<close>

lemma set_value_fields:
  "node_value (fst (set_value this val)) = val"
  "node_forceValue (fst (set_value this val)) = node_forceValue this"
  "NodeBase.more (fst (set_value this val)) = NodeBase.more this"
  "node_id (fst (set_value this val)) = node_id this"
  by (simp_all add: set_value_def Let_def)

lemma set_value_calls:
  "snd (set_value this val) =
     (if get_value (fst (set_value this val)) \<noteq> get_value this
      then [get_value (fst (set_value this val))] else [])"
  by (simp add: set_value_def Let_def propagateNewValueIfNecessary_def get_value_def
      split: option.splits)

lemma set_forceValue_calls:
  "snd (set_forceValue this f) =
     (if get_value (fst (set_forceValue this f)) \<noteq> get_value this
      then [get_value (fst (set_forceValue this f))] else [])"
  by (simp add: set_forceValue_def Let_def propagateNewValueIfNecessary_def)

lemma set_forceValue_fields:
  "node_value (fst (set_forceValue this f)) = node_value this"
  "node_forceValue (fst (set_forceValue this f)) = f"
  "outgoingWires (fst (set_forceValue this f)) = outgoingWires this"
  by (simp_all add: set_forceValue_def Let_def)

lemma outgoingWires_set_value: "outgoingWires (fst (set_value this val)) = outgoingWires this"
  by (simp add: set_value_def Let_def)

subsection \<open>Output nodes\<close>

lemma NodeOut_set_value_parts:
  "fst (NodeOut_set_value now this val) = fst (set_value this val)"
  "fst (snd (NodeOut_set_value now this val)) = snd (set_value this val)"
  "snd (snd (NodeOut_set_value now this val))
     = concat (map (NodeOut_propagateNewValue now (fst (set_value this val)))
                   (snd (set_value this val)))"
  by (simp_all add: NodeOut_set_value_def split_beta)

lemma NodeOut_set_forceValue_parts:
  "fst (NodeOut_set_forceValue now this f) = fst (set_forceValue this f)"
  "fst (snd (NodeOut_set_forceValue now this f)) = snd (set_forceValue this f)"
  "snd (snd (NodeOut_set_forceValue now this f))
     = concat (map (NodeOut_propagateNewValue now (fst (set_forceValue this f)))
                   (snd (set_forceValue this f)))"
  by (simp_all add: NodeOut_set_forceValue_def split_beta)

text \<open>
  Claim C4. The visible value of an output node is the forced value when one is defined
  and the computed value otherwise. Assigning the computed value, and setting or
  clearing the forced value, calls the propagation if and only if the operation changed
  the visible value; the call passes the new visible value, and the propagation pushes
  it to every outgoing wire.
\<close>

theorem NodeOut_visible_value_and_propagation:
  "get_value this = (case node_forceValue this of Some forced \<Rightarrow> forced | None \<Rightarrow> node_value this)
   \<and> (case NodeOut_set_value now this val of
        (this', calls, pushes) \<Rightarrow>
          node_value this' = val \<and> node_forceValue this' = node_forceValue this
          \<and> outgoingWires this' = outgoingWires this
          \<and> (calls \<noteq> []) = (get_value this' \<noteq> get_value this)
          \<and> calls = (if get_value this' \<noteq> get_value this then [get_value this'] else [])
          \<and> pushes = concat (map (\<lambda>newValue.
               map (\<lambda>wire. \<lparr>push_wire = wire, push_value = newValue, push_now = now\<rparr>)
                 (outgoingWires this')) calls))
   \<and> (case NodeOut_set_forceValue now this newForceValue of
        (this', calls, pushes) \<Rightarrow>
          node_value this' = node_value this \<and> node_forceValue this' = newForceValue
          \<and> outgoingWires this' = outgoingWires this
          \<and> (calls \<noteq> []) = (get_value this' \<noteq> get_value this)
          \<and> calls = (if get_value this' \<noteq> get_value this then [get_value this'] else [])
          \<and> pushes = concat (map (\<lambda>newValue.
               map (\<lambda>wire. \<lparr>push_wire = wire, push_value = newValue, push_now = now\<rparr>)
                 (outgoingWires this')) calls))"
  by (simp add: split_beta NodeOut_set_value_parts NodeOut_set_forceValue_parts
      set_value_fields set_forceValue_fields outgoingWires_set_value
      set_value_calls set_forceValue_calls NodeOut_propagateNewValue_def [abs_def])
     (simp add: get_value_def)

text \<open>
  An instance: an output node with computed value false and two outgoing wires. Assigning
  true pushes true to both wires; the node then forced to true and assigned false keeps
  its visible value and pushes nothing.
\<close>

theorem NodeOut_visible_value_and_propagation_witness:
  "NodeOut_set_value (5::nat)
      \<lparr>node_id = 1, node_isAlive = True, node_value = Bool False, node_forceValue = None,
       outgoingWires = [7, 8]\<rparr> (Bool True)
    = (\<lparr>node_id = 1, node_isAlive = True, node_value = Bool True, node_forceValue = None,
        outgoingWires = [7, 8]\<rparr>,
       [Bool True],
       [\<lparr>push_wire = 7, push_value = Bool True, push_now = 5\<rparr>,
        \<lparr>push_wire = 8, push_value = Bool True, push_now = 5\<rparr>])
   \<and> NodeOut_set_value (5::nat)
      \<lparr>node_id = 1, node_isAlive = True, node_value = Bool True, node_forceValue = Some (Bool True),
       outgoingWires = [7, 8]\<rparr> (Bool False)
    = (\<lparr>node_id = 1, node_isAlive = True, node_value = Bool False, node_forceValue = Some (Bool True),
        outgoingWires = [7, 8]\<rparr>, [], [])"
proof -
  let ?n = "\<lparr>node_id = 1, node_isAlive = True, node_value = Bool False, node_forceValue = None,
       outgoingWires = [7, 8]\<rparr>"
  let ?m = "\<lparr>node_id = 1, node_isAlive = True, node_value = Bool True,
       node_forceValue = Some (Bool True), outgoingWires = [7, 8]\<rparr>"
  have 1: "fst (NodeOut_set_value (5::nat) ?n (Bool True)) = ?n\<lparr>node_value := Bool True\<rparr>"
    by (simp add: NodeOut_set_value_def set_value_def Let_def split_beta)
  have 2: "fst (NodeOut_set_value (5::nat) ?m (Bool False)) = ?m\<lparr>node_value := Bool False\<rparr>"
    by (simp add: NodeOut_set_value_def set_value_def Let_def split_beta)
  from NodeOut_visible_value_and_propagation
      [where this = ?n and now = "5::nat" and val = "Bool True" and newForceValue = None]
    NodeOut_visible_value_and_propagation
      [where this = ?m and now = "5::nat" and val = "Bool False" and newForceValue = None] 1 2
  show ?thesis
    by (simp add: split_beta get_value_def prod_eq_iff)
qed

subsection \<open>Input nodes\<close>

lemma NodeIn_set_value_fst: "fst (NodeIn_set_value this val) = fst (set_value this val)"
  by (simp add: NodeIn_set_value_def split: prod.splits)

lemma NodeIn_set_value_snd:
  "snd (NodeIn_set_value this val) =
     (if get_value (fst (set_value this val)) \<noteq> get_value this then [setNeedsRecalc] else [])"
proof -
  have "snd (NodeIn_set_value this val)
      = concat (map NodeIn_propagateNewValue (snd (set_value this val)))"
    by (simp add: NodeIn_set_value_def split_beta)
  then show ?thesis
    by (simp add: set_value_calls NodeIn_propagateNewValue_def)
qed

lemma incomingWire_set_value: "incomingWire (fst (set_value this val)) = incomingWire this"
  by (simp add: set_value_def Let_def)

lemma set_incomingWire_fields:
  "incomingWire (fst (set_incomingWire this wire)) = wire"
  "node_forceValue (fst (set_incomingWire this wire)) = node_forceValue this"
  "node_value (fst (set_incomingWire this wire))
     = (case wire of None \<Rightarrow> Bool False | Some w \<Rightarrow> get_value (startNode w))"
  by (simp_all add: set_incomingWire_def Let_def NodeIn_set_value_fst set_value_fields
      incomingWire_set_value split: option.splits)

lemma get_value_incomingWire_update:
  "get_value (this\<lparr>incomingWire := wire\<rparr>) = get_value this"
  by (simp add: get_value_def split: option.splits)

lemma set_incomingWire_calls:
  "snd (set_incomingWire this wire) =
     (if get_value (fst (set_incomingWire this wire)) \<noteq> get_value this
      then [setNeedsRecalc] else [])"
  by (cases wire)
     (simp_all add: set_incomingWire_def Let_def NodeIn_set_value_snd NodeIn_set_value_fst
        get_value_incomingWire_update)

lemma NodeIn_invariant:
  "NodeIn_reachable this \<Longrightarrow>
     node_forceValue this = None \<and> (incomingWire this = None \<longrightarrow> node_value this = Bool False)"
proof (induction rule: NodeIn_reachable.induct)
  case (created nodeSpec)
  show ?case by (simp add: NodeIn_new_def)
next
  case (rewired this wire)
  then show ?case by (simp add: set_incomingWire_fields split: option.splits)
next
  case (delivered this val)
  then show ?case by (auto simp add: NodeIn_set_value_fst set_value_fields incomingWire_set_value)
qed

text \<open>
  Claim C5. A new input node has no incoming wire, and every input node that a run can
  produce has the value false while it has no incoming wire. Attaching a wire sets the
  value at once to the visible value of the wire's start node, with no local override;
  detaching the wire sets it back to false; and either update notifies the owning
  component to recalculate exactly when it changed the node's visible value.
\<close>

theorem NodeIn_value_follows_wire:
  assumes "NodeIn_reachable this"
  shows "incomingWire (NodeIn_new nodeSpec) = None
    \<and> (incomingWire this = None \<longrightarrow> get_value this = Bool False)
    \<and> (case set_incomingWire this (Some w) of
          (this', calls) \<Rightarrow>
            incomingWire this' = Some w \<and> get_value this' = get_value (startNode w)
            \<and> calls = (if get_value this' \<noteq> get_value this then [setNeedsRecalc] else []))
    \<and> (case set_incomingWire this None of
          (this', calls) \<Rightarrow>
            incomingWire this' = None \<and> get_value this' = Bool False
            \<and> calls = (if get_value this' \<noteq> get_value this then [setNeedsRecalc] else []))"
proof -
  from NodeIn_invariant [OF assms]
  have nf: "node_forceValue this = None"
    and idle: "incomingWire this = None \<longrightarrow> node_value this = Bool False" by simp_all
  have vis: "get_value n = node_value n" if "node_forceValue n = None" for n :: NodeIn
    using that by (simp add: get_value_def)
  note calls = set_incomingWire_calls [of this]
  have after: "get_value (fst (set_incomingWire this wire))
      = (case wire of None \<Rightarrow> Bool False | Some w \<Rightarrow> get_value (startNode w))" for wire
    using nf by (simp add: vis set_incomingWire_fields)
  show ?thesis
  proof (intro conjI)
    show "incomingWire (NodeIn_new nodeSpec) = None" by (simp add: NodeIn_new_def)
    show "incomingWire this = None \<longrightarrow> get_value this = Bool False"
      using idle nf by (simp add: vis)
    show "case set_incomingWire this (Some w) of
          (this', calls) \<Rightarrow>
            incomingWire this' = Some w \<and> get_value this' = get_value (startNode w)
            \<and> calls = (if get_value this' \<noteq> get_value this then [setNeedsRecalc] else [])"
      using calls [of "Some w"] after [of "Some w"] set_incomingWire_fields(1) [of this "Some w"]
      by (cases "set_incomingWire this (Some w)") simp
    show "case set_incomingWire this None of
          (this', calls) \<Rightarrow>
            incomingWire this' = None \<and> get_value this' = Bool False
            \<and> calls = (if get_value this' \<noteq> get_value this then [setNeedsRecalc] else [])"
      using calls [of None] after [of None] set_incomingWire_fields(1) [of this None]
      by (cases "set_incomingWire this None") simp
  qed
qed

text \<open>
  An instance: a new input node is attached to a wire whose start node is forced to true
  over a computed false; the input node takes the value true and notifies its owner.
\<close>

theorem NodeIn_value_follows_wire_witness:
  "NodeIn_reachable (NodeIn_new \<lparr>repr_id = 3\<rparr>)
   \<and> get_value (NodeIn_new \<lparr>repr_id = 3\<rparr>) = Bool False
   \<and> set_incomingWire (NodeIn_new \<lparr>repr_id = 3\<rparr>)
        (Some \<lparr>startNode = \<lparr>node_id = 1, node_isAlive = True, node_value = Bool False,
                            node_forceValue = Some (Bool True), outgoingWires = [7]\<rparr>\<rparr>)
     = (\<lparr>node_id = 3, node_isAlive = True, node_value = Bool True, node_forceValue = None,
         incomingWire = Some \<lparr>startNode = \<lparr>node_id = 1, node_isAlive = True,
                            node_value = Bool False, node_forceValue = Some (Bool True),
                            outgoingWires = [7]\<rparr>\<rparr>,
         prefersSpike = False\<rparr>, [setNeedsRecalc])"
proof -
  let ?n = "NodeIn_new \<lparr>repr_id = 3\<rparr>"
  let ?w = "\<lparr>startNode = \<lparr>node_id = 1, node_isAlive = True, node_value = Bool False,
                            node_forceValue = Some (Bool True), outgoingWires = [7]\<rparr>\<rparr>"
  have r: "NodeIn_reachable ?n" by (rule NodeIn_reachable.created)
  have f: "fst (set_incomingWire ?n (Some ?w))
      = \<lparr>node_id = 3, node_isAlive = True, node_value = Bool True, node_forceValue = None,
         incomingWire = Some ?w, prefersSpike = False\<rparr>"
    by (simp add: set_incomingWire_def NodeIn_set_value_def set_value_def Let_def split_beta
        NodeIn_new_def get_value_def)
  from NodeIn_value_follows_wire [OF r, where nodeSpec = "\<lparr>repr_id = 3\<rparr>" and w = ?w] r f
  show ?thesis
    by (simp add: split_beta prod_eq_iff get_value_def NodeIn_new_def)
qed


section \<open>Properties of the node representation\<close>

lemma collapse_length:
  "(if length es = 1 then f (es ! 0) else JArray (map f es)) = collapse (map f es)"
  by (cases es rule: list.exhaust; cases "tl es") (auto simp: collapse_def)

lemma inNodeReprs_collapse: "inNodeReprs ns = collapse (map input_entry ns)"
  unfolding inNodeReprs_def Let_def input_entry_def [abs_def] by (rule collapse_length)

lemma outNodeReprs_collapse:
  "outNodeReprs toTriStateRepr ns = collapse (map (output_entry toTriStateRepr) ns)"
  unfolding outNodeReprs_def Let_def output_entry_def [abs_def] by (rule collapse_length)

text \<open>
  Claim C9. The representation that \<^verbatim>\<open>buildNodesRepr\<close> produces is the compact scheme
  of the specification: no field without nodes; with inputs only a single \<^verbatim>\<open>id\<close> field
  holding the identifiers; with outputs only a single \<^verbatim>\<open>id\<close> field holding the output
  entries; with both, an \<^verbatim>\<open>in\<close> and an \<^verbatim>\<open>out\<close> field; an array of one element
  collapses to the element; and the entry of an output node has a \<^verbatim>\<open>force\<close> field if
  and only if the node has a defined forced value.
\<close>

theorem buildNodesRepr_scheme:
  "buildNodesRepr toTriStateRepr inputs outputs = NodeIDsRepr_spec toTriStateRepr inputs outputs
   \<and> collapse [entry] = entry
   \<and> has_field ''force'' (output_entry toTriStateRepr node) = (node_forceValue node \<noteq> None)"
proof (intro conjI)
  show "buildNodesRepr toTriStateRepr inputs outputs = NodeIDsRepr_spec toTriStateRepr inputs outputs"
    by (simp add: buildNodesRepr_def NodeIDsRepr_spec_def Let_def inNodeReprs_collapse
        outNodeReprs_collapse)
  show "collapse [entry] = entry" by (simp add: collapse_def)
  show "has_field ''force'' (output_entry toTriStateRepr node) = (node_forceValue node \<noteq> None)"
    by (simp add: has_field_def output_entry_def split: option.splits)
qed


text \<open>
  Instances of every arity: no node; one input; two inputs; one forced output; inputs
  and outputs together.
\<close>

theorem buildNodesRepr_scheme_witness:
  "buildNodesRepr toLogicValueRepr ([] :: NodeIn list) [] = JObject []
   \<and> buildNodesRepr toLogicValueRepr [NodeIn_new \<lparr>repr_id = 3\<rparr>] [] = JObject [(''id'', JNumber 3)]
   \<and> buildNodesRepr toLogicValueRepr [NodeIn_new \<lparr>repr_id = 3\<rparr>, NodeIn_new \<lparr>repr_id = 4\<rparr>] []
       = JObject [(''id'', JArray [JNumber 3, JNumber 4])]
   \<and> buildNodesRepr toLogicValueRepr ([] :: NodeIn list)
        [\<lparr>node_id = 1, node_isAlive = True, node_value = Bool False,
          node_forceValue = Some (Bool True), outgoingWires = []\<rparr>]
       = JObject [(''id'', JObject [(''id'', JNumber 1), (''force'', JTriState (CHR ''1''))])]
   \<and> buildNodesRepr toLogicValueRepr [NodeIn_new \<lparr>repr_id = 3\<rparr>, NodeIn_new \<lparr>repr_id = 4\<rparr>]
        [\<lparr>node_id = 1, node_isAlive = True, node_value = Bool False,
          node_forceValue = Some (Bool True), outgoingWires = []\<rparr>,
         \<lparr>node_id = 2, node_isAlive = True, node_value = Bool False,
          node_forceValue = None, outgoingWires = []\<rparr>]
       = JObject [(''in'', JArray [JNumber 3, JNumber 4]),
                  (''out'', JArray [JObject [(''id'', JNumber 1), (''force'', JTriState (CHR ''1''))],
                                   JNumber 2])]"
  by (simp add: buildNodesRepr_scheme NodeIDsRepr_spec_def collapse_def input_entry_def
      output_entry_def NodeIn_new_def)

end
